theory Spec2Isabelle
  imports Complex_Main "HOL-Library.Word" "HOL-Library.Log_Nat" "HOL-Library.Multiset"
begin

section \<open>The type double: IEEE 754 binary64, round to nearest, ties to even\<close>

text \<open>
  The engine computes on C++ \<open>double\<close>: IEEE 754 binary64 in the default rounding mode,
  each operation rounded once. A double is modelled by its value: a finite number (a
  rational; \<open>Finite 0\<close> is +0.0), the negative zero, an infinity with its sign (\<open>True\<close>
  is negative), or a NaN (sign and payload of a NaN are not observable through the
  operations the engine uses). Every finite binary64 number is a multiple of \<open>2^-1074\<close>
  with at most 53 significant bits and magnitude below \<open>2^1024\<close>. The operations below
  return such numbers (\<open>is_double\<close>); \<open>Finite\<close> also holds the rationals in between, and
  what is proved for every \<open>double\<close> of the model holds for the doubles of the machine.
\<close>

datatype double = Finite rat | Neg_Zero | Infinity bool | NaN

fun is_finite :: "double \<Rightarrow> bool" where
  "is_finite (Finite r) = True"
| "is_finite Neg_Zero = True"
| "is_finite (Infinity s) = False"
| "is_finite NaN = False"

fun fval :: "double \<Rightarrow> rat" where
  "fval (Finite r) = r"
| "fval Neg_Zero = 0"
| "fval (Infinity s) = 0"
| "fval NaN = 0"

fun sign_bit :: "double \<Rightarrow> bool" where
  "sign_bit (Finite r) = (r < 0)"
| "sign_bit Neg_Zero = True"
| "sign_bit (Infinity s) = s"
| "sign_bit NaN = False"

definition signed_zero :: "bool \<Rightarrow> double" where
  "signed_zero s = (if s then Neg_Zero else Finite 0)"

text \<open>Rounding a rational to the nearest integer, a tie going to the even neighbour.\<close>

definition round_half_even :: "rat \<Rightarrow> int" where
  "round_half_even x =
     (let f = \<lfloor>x\<rfloor>; d = x - of_int f
      in if d < 1 / 2 then f
         else if 1 / 2 < d then f + 1
         else if even f then f else f + 1)"

text \<open>
  Rounding a magnitude \<open>r \<ge> 0\<close> to 53 significant bits, in units of \<open>2^-1074\<close> (the
  smallest subnormal): with \<open>s = r * 2^1074\<close>, the spacing of the doubles around \<open>s\<close> is
  \<open>2^k\<close> units, where \<open>k\<close> is the number of bits of \<open>\<lfloor>s\<rfloor>\<close> beyond 53 (none in the
  subnormal range and in the lowest normal binade). A rounded magnitude of \<open>2^1024\<close> or
  more is an overflow.
\<close>

definition min_exp :: nat where
  "min_exp = 1074"

definition max_exp :: nat where
  "max_exp = 1024"

definition ulp_shift :: "rat \<Rightarrow> nat" where
  "ulp_shift s = nat (bitlen \<lfloor>s\<rfloor> - 53)"

definition round_units :: "rat \<Rightarrow> int" where
  "round_units s = round_half_even (s / 2 ^ ulp_shift s) * 2 ^ ulp_shift s"

definition round_mag :: "rat \<Rightarrow> rat option" where
  "round_mag r =
     (let n = round_units (r * 2 ^ min_exp)
      in if 2 ^ (max_exp + min_exp) \<le> n then None else Some (of_int n / 2 ^ min_exp))"

text \<open>
  The correctly rounded result of an operation whose exact value is \<open>v\<close>: overflow gives
  the infinity of the sign of \<open>v\<close>, a result that rounds to zero keeps the sign of \<open>v\<close>,
  and an exact zero is +0.0 (the zero of a sum or difference in this rounding mode).
\<close>

definition fround :: "rat \<Rightarrow> double" where
  "fround v =
     (case round_mag \<bar>v\<bar> of
        None \<Rightarrow> Infinity (v < 0)
      | Some m \<Rightarrow> if m = 0 then signed_zero (v < 0)
                  else Finite (if v < 0 then - m else m))"

text \<open>The values of the model that are doubles: those whose magnitude rounds to itself.\<close>

definition is_double :: "double \<Rightarrow> bool" where
  "is_double x = (case x of Finite r \<Rightarrow> round_mag \<bar>r\<bar> = Some \<bar>r\<bar> | _ \<Rightarrow> True)"

fun fneg :: "double \<Rightarrow> double" where
  "fneg (Finite r) = (if r = 0 then Neg_Zero else Finite (- r))"
| "fneg Neg_Zero = Finite 0"
| "fneg (Infinity s) = Infinity (\<not> s)"
| "fneg NaN = NaN"

fun fadd :: "double \<Rightarrow> double \<Rightarrow> double" where
  "fadd NaN y = NaN"
| "fadd x NaN = NaN"
| "fadd (Infinity a) (Infinity b) = (if a = b then Infinity a else NaN)"
| "fadd (Infinity a) y = Infinity a"
| "fadd x (Infinity b) = Infinity b"
| "fadd Neg_Zero Neg_Zero = Neg_Zero"
| "fadd x y = fround (fval x + fval y)"

definition fsub :: "double \<Rightarrow> double \<Rightarrow> double" where
  "fsub x y = fadd x (fneg y)"

fun fdiv :: "double \<Rightarrow> double \<Rightarrow> double" where
  "fdiv NaN y = NaN"
| "fdiv x NaN = NaN"
| "fdiv (Infinity a) (Infinity b) = NaN"
| "fdiv (Infinity a) y = Infinity (a \<noteq> sign_bit y)"
| "fdiv x (Infinity b) = signed_zero (sign_bit x \<noteq> b)"
| "fdiv x y =
     (if fval y = 0 then (if fval x = 0 then NaN else Infinity (sign_bit x \<noteq> sign_bit y))
      else if fval x = 0 then signed_zero (sign_bit x \<noteq> sign_bit y)
      else fround (fval x / fval y))"

text \<open>The comparisons \<open>==\<close>, \<open><\<close> and \<open>>\<close>: false whenever an operand is a NaN; the two
  zeros are equal.\<close>

fun feq :: "double \<Rightarrow> double \<Rightarrow> bool" where
  "feq NaN y = False"
| "feq x NaN = False"
| "feq (Infinity a) (Infinity b) = (a = b)"
| "feq (Infinity a) y = False"
| "feq x (Infinity b) = False"
| "feq x y = (fval x = fval y)"

fun flt :: "double \<Rightarrow> double \<Rightarrow> bool" where
  "flt NaN y = False"
| "flt x NaN = False"
| "flt (Infinity a) (Infinity b) = (a \<and> \<not> b)"
| "flt (Infinity a) y = a"
| "flt x (Infinity b) = (\<not> b)"
| "flt x y = (fval x < fval y)"

definition fgt :: "double \<Rightarrow> double \<Rightarrow> bool" where
  "fgt x y = flt y x"

fun fle :: "double \<Rightarrow> double \<Rightarrow> bool" where
  "fle NaN y = False"
| "fle x NaN = False"
| "fle (Infinity a) (Infinity b) = (a \<or> \<not> b)"
| "fle (Infinity a) y = a"
| "fle x (Infinity b) = (\<not> b)"
| "fle x y = (fval x \<le> fval y)"

section \<open>OrderBook (order\_book.hpp, order\_book.cpp)\<close>

text \<open>
  An \<open>Order\<close> is a price and a quantity. The book owns two vectors of orders; the mutex
  serialises the member functions, so each of them is a function on the state of the
  book, and the \<open>unique_ptr\<close> elements are the orders they own. Allocation is taken to
  succeed.
\<close>

record Order =
  price :: double
  quantity :: double

record OrderBook =
  bids :: "Order list"
  asks :: "Order list"

definition OrderBook_new :: OrderBook where
  "OrderBook_new = \<lparr>bids = [], asks = []\<rparr>"

definition add_order :: "double \<Rightarrow> double \<Rightarrow> bool \<Rightarrow> OrderBook \<Rightarrow> OrderBook" where
  "add_order p q is_bid ob =
     (let new_order = \<lparr>price = p, quantity = q\<rparr>
      in if is_bid then ob\<lparr>bids := bids ob @ [new_order]\<rparr>
         else ob\<lparr>asks := asks ob @ [new_order]\<rparr>)"

text \<open>The loop \<open>for (const auto& o : orders) total += o->quantity\<close>, from left to right.\<close>

fun sum_quantity :: "double \<Rightarrow> Order list \<Rightarrow> double" where
  "sum_quantity vol [] = vol"
| "sum_quantity vol (x # xs) = sum_quantity (fadd vol (quantity x)) xs"

definition get_imbalance :: "OrderBook \<Rightarrow> double" where
  "get_imbalance ob =
     (let total_bid_vol = sum_quantity (Finite 0) (bids ob);
          total_ask_vol = sum_quantity (Finite 0) (asks ob);
          total_vol = fadd total_bid_vol total_ask_vol
      in if feq total_vol (Finite 0) then Finite 0
         else fdiv (fsub total_bid_vol total_ask_vol) total_vol)"

definition clear :: "OrderBook \<Rightarrow> OrderBook" where
  "clear ob = ob\<lparr>bids := [], asks := []\<rparr>"

text \<open>
  The counts are returned as \<open>int\<close>: the \<open>size_t\<close> length is narrowed to 32 bits, read
  as two's complement by \<open>sint\<close>.
\<close>

type_synonym int32 = "32 word"

definition get_bid_count :: "OrderBook \<Rightarrow> int32" where
  "get_bid_count ob = word_of_nat (length (bids ob))"

definition get_ask_count :: "OrderBook \<Rightarrow> int32" where
  "get_ask_count ob = word_of_nat (length (asks ob))"

section \<open>PairStrategy (pair\_strategy.hpp, pair\_strategy.cpp)\<close>

record PairStrategy =
  leader_book :: OrderBook
  follower_book :: OrderBook
  entry_threshold :: double

definition PairStrategy_new :: "double \<Rightarrow> PairStrategy" where
  "PairStrategy_new threshold =
     \<lparr>leader_book = OrderBook_new, follower_book = OrderBook_new,
      entry_threshold = threshold\<rparr>"

definition on_market_data ::
  "int32 \<Rightarrow> double \<Rightarrow> double \<Rightarrow> bool \<Rightarrow> PairStrategy \<Rightarrow> PairStrategy" where
  "on_market_data symbol_type p q is_bid ps =
     (if symbol_type = 0 then ps\<lparr>leader_book := add_order p q is_bid (leader_book ps)\<rparr>
      else if symbol_type = 1
        then ps\<lparr>follower_book := add_order p q is_bid (follower_book ps)\<rparr>
      else ps)"

definition check_signals :: "PairStrategy \<Rightarrow> int32" where
  "check_signals ps =
     (let leader_obi = get_imbalance (leader_book ps)
      in if fgt leader_obi (entry_threshold ps) then 1
         else if flt leader_obi (fneg (entry_threshold ps)) then - 1
         else 0)"

definition get_leader_imbalance :: "PairStrategy \<Rightarrow> double" where
  "get_leader_imbalance ps = get_imbalance (leader_book ps)"


section \<open>Sequences of calls\<close>

text \<open>The five member functions of a book; the three queries leave the book as it is.\<close>

datatype book_op =
  Add_order double double bool | Get_imbalance | Clear | Get_bid_count | Get_ask_count

fun apply_op :: "book_op \<Rightarrow> OrderBook \<Rightarrow> OrderBook" where
  "apply_op (Add_order p q is_bid) ob = add_order p q is_bid ob"
| "apply_op Clear ob = clear ob"
| "apply_op Get_imbalance ob = ob"
| "apply_op Get_bid_count ob = ob"
| "apply_op Get_ask_count ob = ob"

definition run_ops :: "book_op list \<Rightarrow> OrderBook \<Rightarrow> OrderBook" where
  "run_ops ops ob = foldl (\<lambda>s op. apply_op op s) ob ops"

text \<open>A call of \<open>add_order\<close> is its arguments: price, quantity and side.\<close>

type_synonym add_call = "double \<times> double \<times> bool"

definition add_orders :: "add_call list \<Rightarrow> OrderBook \<Rightarrow> OrderBook" where
  "add_orders calls ob = foldl (\<lambda>s (p, q, is_bid). add_order p q is_bid s) ob calls"

section \<open>Notions used to state the properties\<close>

text \<open>The calls after the last \<open>clear()\<close>, and the number of \<open>add_order\<close> calls of one
  side among them.\<close>

definition since_last_clear :: "book_op list \<Rightarrow> book_op list" where
  "since_last_clear ops = rev (takeWhile (\<lambda>op. op \<noteq> Clear) (rev ops))"

fun is_add :: "bool \<Rightarrow> book_op \<Rightarrow> bool" where
  "is_add side (Add_order p q is_bid) = (is_bid = side)"
| "is_add side other = False"

definition adds_since_clear :: "bool \<Rightarrow> book_op list \<Rightarrow> nat" where
  "adds_since_clear side ops = length (filter (is_add side) (since_last_clear ops))"

text \<open>The sum of the quantities of a sequence of orders, added up in sequence order
  from 0.0.\<close>

definition total_volume :: "Order list \<Rightarrow> double" where
  "total_volume xs = foldl fadd (Finite 0) (map quantity xs)"

text \<open>A value in the closed interval from -1 to 1.\<close>

definition in_unit_range :: "double \<Rightarrow> bool" where
  "in_unit_range x = (fle (Finite (- 1)) x \<and> fle x (Finite 1))"

text \<open>
  A volume accumulated from non-negative quantities: a non-negative double (a magnitude
  that rounds to itself) or the positive infinity.
\<close>

definition exact_volume :: "double \<Rightarrow> bool" where
  "exact_volume x =
     (case x of Finite r \<Rightarrow> 0 \<le> r \<and> round_mag r = Some r | Infinity s \<Rightarrow> \<not> s
      | _ \<Rightarrow> False)"

text \<open>A quantity that is a non-negative whole number, and the number it is.\<close>

definition whole_quantity :: "double \<Rightarrow> bool" where
  "whole_quantity q = (case q of Finite r \<Rightarrow> 0 \<le> r \<and> of_int \<lfloor>r\<rfloor> = r | _ \<Rightarrow> False)"

definition units_of :: "double \<Rightarrow> nat" where
  "units_of q = nat \<lfloor>fval q\<rfloor>"

text \<open>The sum of the whole quantities of one side of a sequence of calls.\<close>

definition side_units :: "bool \<Rightarrow> add_call list \<Rightarrow> nat" where
  "side_units side calls =
     sum_list (map (\<lambda>(p, q, is_bid). units_of q) (filter (\<lambda>(p, q, is_bid). is_bid = side) calls))"

section \<open>Properties of rounding\<close>

lemma round_half_even_of_int: "round_half_even (of_int n) = n"
  by (simp add: round_half_even_def)

lemma round_half_even_bounds:
  "\<lfloor>x\<rfloor> \<le> round_half_even x" "round_half_even x \<le> \<lceil>x\<rceil>"
  unfolding round_half_even_def Let_def
  by (auto simp: ceiling_altdef)

lemma round_half_even_mono:
  assumes "x \<le> y" shows "round_half_even x \<le> round_half_even y"
proof (cases "\<lfloor>x\<rfloor> = \<lfloor>y\<rfloor>")
  case True
  with assms show ?thesis
    unfolding round_half_even_def Let_def by auto
next
  case False
  with assms have "\<lfloor>x\<rfloor> < \<lfloor>y\<rfloor>" using floor_mono [of x y] by linarith
  then have "\<lceil>x\<rceil> \<le> \<lfloor>y\<rfloor>" by (simp add: ceiling_altdef)
  with round_half_even_bounds(2) [of x] round_half_even_bounds(1) [of y]
  show ?thesis by linarith
qed

lemma ulp_shift_le:
  assumes "s < 2 ^ (53 + k)" shows "ulp_shift s \<le> k"
proof -
  have "\<lfloor>s\<rfloor> < 2 ^ (53 + k)" using assms by (simp add: floor_less_iff)
  moreover have "nat (int (53 + k)) = 53 + k" by simp
  ultimately have "bitlen \<lfloor>s\<rfloor> \<le> int (53 + k)" unfolding bitlen_le_iff_power by simp
  then show ?thesis by (simp add: ulp_shift_def)
qed

lemma ulp_shift_upper: "s < 2 ^ (53 + ulp_shift s)"
proof -
  have "bitlen \<lfloor>s\<rfloor> \<le> int (53 + ulp_shift s)" by (simp add: ulp_shift_def)
  then have "\<lfloor>s\<rfloor> < 2 ^ nat (int (53 + ulp_shift s))" unfolding bitlen_le_iff_power by simp
  then have "\<lfloor>s\<rfloor> < 2 ^ (53 + ulp_shift s)" by (simp add: nat_add_distrib)
  then show ?thesis by (simp add: floor_less_iff)
qed

lemma ulp_shift_lower:
  assumes "0 < ulp_shift s" shows "2 ^ (52 + ulp_shift s) \<le> s"
proof -
  have "int (53 + ulp_shift s) \<le> bitlen \<lfloor>s\<rfloor>" using assms by (simp add: ulp_shift_def)
  then have "2 ^ (nat (int (53 + ulp_shift s)) - 1) \<le> \<lfloor>s\<rfloor>" unfolding bitlen_ge_iff_power by simp
  moreover have "nat (int (53 + ulp_shift s)) - 1 = 52 + ulp_shift s" by simp
  ultimately have "2 ^ (52 + ulp_shift s) \<le> \<lfloor>s\<rfloor>" by simp
  then show ?thesis by (simp add: le_floor_iff)
qed

lemma ulp_shift_mono:
  assumes "s \<le> t" shows "ulp_shift s \<le> ulp_shift t"
  using ulp_shift_le [of s "ulp_shift t"] ulp_shift_upper [of t] assms by simp

lemma round_units_mono:
  assumes "s \<le> t" shows "round_units s \<le> round_units t"
proof (cases "ulp_shift s = ulp_shift t")
  case True
  have "s / 2 ^ ulp_shift t \<le> t / 2 ^ ulp_shift t"
    using assms by (simp add: divide_right_mono)
  then have "round_half_even (s / 2 ^ ulp_shift t) \<le> round_half_even (t / 2 ^ ulp_shift t)"
    by (rule round_half_even_mono)
  then show ?thesis
    unfolding round_units_def True by (simp add: mult_right_mono)
next
  case False
  define k where "k = ulp_shift s"
  define K where "K = ulp_shift t"
  from False ulp_shift_mono [OF assms] have kK: "k < K" by (simp add: k_def K_def)
  then have "0 < ulp_shift t" by (simp add: K_def)
  from ulp_shift_lower [OF this] have tl: "2 ^ (52 + K) \<le> t" by (simp add: K_def)
  have su: "s < 2 ^ (53 + k)" using ulp_shift_upper [of s] by (simp add: k_def)
  have "s / 2 ^ k \<le> of_int (2 ^ 53)"
    using su by (simp add: divide_le_eq power_add)
  then have "round_half_even (s / 2 ^ k) \<le> round_half_even (of_int (2 ^ 53))"
    by (rule round_half_even_mono)
  then have "round_half_even (s / 2 ^ k) \<le> 2 ^ 53"
    unfolding round_half_even_of_int .
  then have "round_half_even (s / 2 ^ k) * 2 ^ k \<le> 2 ^ 53 * 2 ^ k"
    by (simp add: mult_right_mono)
  then have a: "round_units s \<le> 2 ^ (53 + k)"
    by (simp add: round_units_def k_def power_add)
  have "of_int (2 ^ 52) \<le> t / 2 ^ K"
    using tl by (simp add: le_divide_eq power_add)
  then have "round_half_even (of_int (2 ^ 52)) \<le> round_half_even (t / 2 ^ K)"
    by (rule round_half_even_mono)
  then have "2 ^ 52 \<le> round_half_even (t / 2 ^ K)"
    unfolding round_half_even_of_int .
  then have "2 ^ 52 * 2 ^ K \<le> round_half_even (t / 2 ^ K) * 2 ^ K"
    by (simp add: mult_right_mono)
  then have b: "2 ^ (52 + K) \<le> round_units t"
    by (simp add: round_units_def K_def power_add)
  have "(2::int) ^ (53 + k) \<le> 2 ^ (52 + K)"
    using kK by (intro power_increasing) auto
  with a b show ?thesis by linarith
qed

lemma round_units_exact:
  assumes "2 ^ ulp_shift (of_int n) dvd n"
  shows "round_units (of_int n) = n"
proof -
  define k where "k = ulp_shift (of_int n)"
  from assms obtain q where q: "n = q * 2 ^ k" by (auto simp: dvd_def k_def mult.commute)
  have "(of_int n :: rat) / 2 ^ k = of_int q"
    unfolding q by simp
  then have "round_half_even (of_int n / 2 ^ k) = q"
    by (simp add: round_half_even_of_int)
  then have "round_half_even (of_int n / 2 ^ k) * 2 ^ k = n"
    using q by simp
  then show ?thesis unfolding round_units_def k_def .
qed

lemma round_units_zero: "round_units 0 = 0"
  using round_units_exact [of 0] by simp

lemma round_units_nonneg: "0 \<le> s \<Longrightarrow> 0 \<le> round_units s"
  using round_units_mono [of 0 s] by (simp add: round_units_zero)

text \<open>A value \<open>m * 2^i\<close> units with fewer than 54 bits in \<open>m\<close> is a double.\<close>

lemma round_units_representable:
  assumes "0 \<le> m" "m < 2 ^ 53"
  shows "round_units (of_int (m * 2 ^ i)) = m * 2 ^ i"
proof (rule round_units_exact)
  have "(of_int (m * 2 ^ i) :: rat) < 2 ^ (53 + i)"
  proof -
    have "m * 2 ^ i < 2 ^ 53 * 2 ^ i" using assms by simp
    then have "(of_int (m * 2 ^ i) :: rat) < of_int (2 ^ 53 * 2 ^ i)"
      by (simp only: of_int_less_iff)
    then show ?thesis by (simp add: power_add)
  qed
  then have "ulp_shift (of_int (m * 2 ^ i)) \<le> i" by (rule ulp_shift_le)
  then have "(2::int) ^ ulp_shift (of_int (m * 2 ^ i)) dvd 2 ^ i"
    by (simp add: le_imp_power_dvd)
  then show "2 ^ ulp_shift (rat_of_int (m * 2 ^ i)) dvd m * 2 ^ i"
    by (rule dvd_mult)
qed

lemma round_mag_zero: "round_mag 0 = Some 0"
  by (simp add: round_mag_def round_units_zero)

lemma fround_zero [simp]: "fround 0 = Finite 0"
  by (simp add: fround_def round_mag_zero signed_zero_def)

lemma round_mag_mono:
  assumes "r \<le> r'" "round_mag r' = Some m'"
  shows "\<exists>m. round_mag r = Some m \<and> m \<le> m'"
proof -
  have "r * 2 ^ min_exp \<le> r' * 2 ^ min_exp" using assms(1) by (simp add: mult_right_mono)
  then have le: "round_units (r * 2 ^ min_exp) \<le> round_units (r' * 2 ^ min_exp)"
    by (rule round_units_mono)
  from assms(2) have lt: "round_units (r' * 2 ^ min_exp) < 2 ^ (max_exp + min_exp)"
    and m': "m' = of_int (round_units (r' * 2 ^ min_exp)) / 2 ^ min_exp"
    by (auto simp: round_mag_def Let_def split: if_splits)
  from le lt have "round_mag r = Some (of_int (round_units (r * 2 ^ min_exp)) / 2 ^ min_exp)"
    by (simp add: round_mag_def Let_def)
  moreover have "(of_int (round_units (r * 2 ^ min_exp)) :: rat) / 2 ^ min_exp \<le> m'"
    unfolding m' using le by (simp add: divide_right_mono)
  ultimately show ?thesis by simp
qed

lemma round_mag_nonneg:
  assumes "0 \<le> r" "round_mag r = Some m" shows "0 \<le> m"
proof -
  have "0 \<le> round_units (r * 2 ^ min_exp)" using assms(1) by (intro round_units_nonneg) simp
  with assms(2) show ?thesis by (auto simp: round_mag_def Let_def split: if_splits)
qed

text \<open>Doubles round to themselves: \<open>m * 2^i / 2^j\<close> with \<open>m\<close> below \<open>2^53\<close>.\<close>

lemma round_mag_representable:
  assumes "0 \<le> m" "m < 2 ^ 53" "i \<le> 971" "j \<le> 1074"
  shows "round_mag (of_int m * 2 ^ i / 2 ^ j) = Some (of_int m * 2 ^ i / 2 ^ j)"
proof -
  define e where "e = i + (min_exp - j)"
  have split: "(2::rat) ^ min_exp = 2 ^ (min_exp - j) * 2 ^ j"
    using assms(4) by (simp add: min_exp_def flip: power_add)
  have units: "of_int m * 2 ^ i / 2 ^ j * 2 ^ min_exp = (of_int (m * 2 ^ e) :: rat)"
    unfolding split e_def by (simp add: power_add)
  have ru: "round_units (of_int (m * 2 ^ e)) = m * 2 ^ e"
    using assms(1,2) by (rule round_units_representable)
  have "e \<le> 971 + min_exp" using assms(3) by (simp add: e_def)
  then have "(2::int) ^ e \<le> 2 ^ (971 + min_exp)" by (intro power_increasing) auto
  then have "m * 2 ^ e \<le> m * 2 ^ (971 + min_exp)" using assms(1) by (simp add: mult_left_mono)
  also have "\<dots> < 2 ^ 53 * 2 ^ (971 + min_exp)" using assms(2) by simp
  also have "\<dots> = 2 ^ (max_exp + min_exp)"
  proof -
    have "max_exp + min_exp = 53 + (971 + min_exp)" by (simp add: max_exp_def)
    then show ?thesis by (simp only: power_add)
  qed
  finally have no_ovf: "\<not> 2 ^ (max_exp + min_exp) \<le> m * 2 ^ e" by simp
  have "(of_int (m * 2 ^ e) :: rat) / 2 ^ min_exp
      = (of_int m * 2 ^ i / 2 ^ j * 2 ^ min_exp) / 2 ^ min_exp"
    by (simp only: units)
  then have "(of_int (m * 2 ^ e) :: rat) / 2 ^ min_exp = of_int m * 2 ^ i / 2 ^ j"
    by simp
  with ru no_ovf show ?thesis
    unfolding round_mag_def units Let_def by simp
qed

lemma fround_representable:
  assumes "\<bar>m\<bar> < 2 ^ 53" "i \<le> 971" "j \<le> 1074"
  shows "fround (of_int m * 2 ^ i / 2 ^ j) = Finite (of_int m * 2 ^ i / 2 ^ j)"
proof (cases "m = 0")
  case True
  then show ?thesis by (simp add: fround_zero)
next
  case False
  have abs: "\<bar>of_int m * 2 ^ i / 2 ^ j :: rat\<bar> = of_int \<bar>m\<bar> * 2 ^ i / 2 ^ j"
    by (simp add: abs_mult)
  have rm: "round_mag (of_int \<bar>m\<bar> * 2 ^ i / 2 ^ j) = Some (of_int \<bar>m\<bar> * 2 ^ i / 2 ^ j)"
    using assms by (intro round_mag_representable) auto
  have nz: "(of_int \<bar>m\<bar> * 2 ^ i / 2 ^ j :: rat) \<noteq> 0" using False by simp
  have neg: "(of_int m * 2 ^ i / 2 ^ j :: rat) < 0 \<longleftrightarrow> m < 0"
    by (simp add: divide_less_0_iff mult_less_0_iff)
  show ?thesis
    unfolding fround_def abs rm using nz neg by (auto simp: abs_if)
qed

lemma fround_int:
  assumes "\<bar>m\<bar> < 2 ^ 53" shows "fround (of_int m) = Finite (of_int m)"
  using fround_representable [OF assms, of 0 0] by simp

lemma fround_numeral [simp]:
  "numeral w < (2::int) ^ 53 \<Longrightarrow> fround (numeral w) = Finite (numeral w)"
  using fround_int [of "numeral w"] by simp

lemma fround_neg_numeral [simp]:
  "numeral w < (2::int) ^ 53 \<Longrightarrow> fround (- numeral w) = Finite (- numeral w)"
  using fround_int [of "- numeral w"] by simp

lemma fround_one [simp]: "fround 1 = Finite 1"
  using fround_int [of 1] by simp

lemma fround_neg_one [simp]: "fround (- 1) = Finite (- 1)"
  using fround_int [of "- 1"] by simp

lemma fround_half [simp]: "fround (1 / 2) = Finite (1 / 2)" "fround (- (1 / 2)) = Finite (- (1 / 2))"
  using fround_representable [of 1 0 1] fround_representable [of "- 1" 0 1] by simp_all

lemma round_mag_one: "round_mag 1 = Some 1"
  using round_mag_representable [of 1 0 0] by simp

lemma round_mag_overflow:
  assumes "2 ^ max_exp \<le> r" shows "round_mag r = None"
proof -
  have "(of_int (1 * 2 ^ (max_exp + min_exp)) :: rat) \<le> r * 2 ^ min_exp"
    using assms by (simp add: power_add mult_right_mono)
  then have "round_units (of_int (1 * 2 ^ (max_exp + min_exp))) \<le> round_units (r * 2 ^ min_exp)"
    by (rule round_units_mono)
  moreover have "round_units (of_int (1 * 2 ^ (max_exp + min_exp))) = 1 * 2 ^ (max_exp + min_exp)"
    by (rule round_units_representable) auto
  ultimately show ?thesis by (simp add: round_mag_def Let_def)
qed



lemma round_half_even_nonneg: "0 \<le> x \<Longrightarrow> 0 \<le> round_half_even x"
  using round_half_even_mono [of 0 x] round_half_even_of_int [of 0] by simp

lemma round_units_idem:
  assumes "0 \<le> s" shows "round_units (of_int (round_units s)) = round_units s"
proof -
  define k where "k = ulp_shift s"
  define c where "c = round_half_even (s / 2 ^ k)"
  have n: "round_units s = c * 2 ^ k" by (simp add: round_units_def c_def k_def)
  have c0: "0 \<le> c" unfolding c_def using assms by (intro round_half_even_nonneg) simp
  have "s / 2 ^ k \<le> of_int (2 ^ 53)"
    using ulp_shift_upper [of s] by (simp add: k_def divide_le_eq power_add)
  then have "c \<le> round_half_even (of_int (2 ^ 53))"
    unfolding c_def by (rule round_half_even_mono)
  then have "c \<le> 2 ^ 53" unfolding round_half_even_of_int .
  then consider "c < 2 ^ 53" | "c = 2 ^ 53" by linarith
  then show ?thesis
  proof cases
    case 1
    with c0 show ?thesis unfolding n by (rule round_units_representable)
  next
    case 2
    have "c * 2 ^ k = 2 ^ 52 * 2 ^ Suc k" unfolding 2 by simp
    moreover have "round_units (of_int (2 ^ 52 * 2 ^ Suc k)) = 2 ^ 52 * 2 ^ Suc k"
      by (rule round_units_representable) auto
    ultimately show ?thesis unfolding n by simp
  qed
qed

lemma round_mag_idem:
  assumes "0 \<le> r" "round_mag r = Some m" shows "round_mag m = Some m"
proof -
  define n where "n = round_units (r * 2 ^ min_exp)"
  from assms(2) have lt: "\<not> 2 ^ (max_exp + min_exp) \<le> n"
    and m: "m = of_int n / 2 ^ min_exp"
    by (auto simp: round_mag_def Let_def n_def split: if_splits)
  have "0 \<le> r * 2 ^ min_exp" using assms(1) by simp
  then have "round_units (of_int n) = n" unfolding n_def by (rule round_units_idem)
  moreover have "m * 2 ^ min_exp = of_int n" unfolding m by simp
  ultimately show ?thesis using lt by (simp add: round_mag_def Let_def m)
qed

lemma fround_nonneg:
  "0 \<le> v \<Longrightarrow> fround v = (case round_mag v of None \<Rightarrow> Infinity False | Some m \<Rightarrow> Finite m)"
proof -
  assume v: "0 \<le> v"
  then have a: "\<bar>v\<bar> = v" and n: "\<not> v < 0" by simp_all
  show ?thesis
  proof (cases "round_mag v")
    case None
    then show ?thesis unfolding fround_def a using n by simp
  next
    case (Some m)
    then show ?thesis unfolding fround_def a using n by (simp add: signed_zero_def)
  qed
qed

lemma fround_finite:
  assumes "round_mag \<bar>v\<bar> = Some m"
  shows "is_finite (fround v)" "\<bar>fval (fround v)\<bar> = m"
proof -
  have m0: "0 \<le> m" by (rule round_mag_nonneg [OF _ assms]) simp
  show "is_finite (fround v)"
    unfolding fround_def assms by (simp add: signed_zero_def)
  show "\<bar>fval (fround v)\<bar> = m"
    unfolding fround_def assms using m0 by (simp add: signed_zero_def)
qed

lemma round_mag_large_int:
  assumes "0 < n" "bitlen n = 53 + int k"
    and "round_half_even (of_int n / 2 ^ k) * 2 ^ k < 2 ^ max_exp"
  shows "round_mag (of_int n) = Some (of_int (round_half_even (of_int n / 2 ^ k) * 2 ^ k))"
proof -
  define c where "c = round_half_even (of_int n / 2 ^ k)"
  have s: "(of_int n :: rat) * 2 ^ min_exp = of_int (n * 2 ^ min_exp)" by simp
  have "bitlen (n * 2 ^ min_exp) = 53 + int k + int min_exp"
    using assms(1,2) by simp
  then have sh: "ulp_shift (of_int (n * 2 ^ min_exp)) = k + min_exp"
    unfolding ulp_shift_def floor_of_int by simp
  have "(of_int (n * 2 ^ min_exp) :: rat) / 2 ^ (k + min_exp) = of_int n / 2 ^ k"
    by (simp add: power_add)
  then have ru: "round_units (of_int (n * 2 ^ min_exp)) = c * 2 ^ (k + min_exp)"
    unfolding round_units_def sh c_def by simp
  have "c * 2 ^ k * 2 ^ min_exp < 2 ^ max_exp * 2 ^ min_exp"
    using assms(3) unfolding c_def by (simp only: mult_less_cancel_right_pos zero_less_power zero_less_numeral)
  then have no: "\<not> 2 ^ (max_exp + min_exp) \<le> c * 2 ^ (k + min_exp)"
    by (simp add: power_add mult.assoc)
  have "(of_int (c * 2 ^ (k + min_exp)) :: rat) / 2 ^ min_exp = of_int (c * 2 ^ k)"
    by (simp add: power_add)
  with no show ?thesis
    unfolding round_mag_def s ru Let_def c_def [symmetric] by simp
qed

lemma fround_nat:
  assumes "n \<le> 2 ^ 53" shows "fround (of_nat n) = Finite (of_nat n)"
proof (cases "n = 2 ^ 53")
  case True
  show ?thesis unfolding True using fround_representable [of "2 ^ 52" 1 0] by simp
next
  case False
  with assms have "n < 2 ^ 53" by simp
  then have "\<bar>int n\<bar> < 2 ^ 53" by (simp add: nat_less_numeral_power_cancel_iff)
  from fround_int [OF this] show ?thesis by simp
qed

text \<open>Some roundings: two ties that go to the even neighbour, and some doubles.\<close>

lemma fround_tie_53: "fround (2 ^ 53 + 1) = Finite (2 ^ 53)"
proof -
  have b: "bitlen (2 ^ 53 + 1) = 53 + int 1"
    using bitlen_twopow_add_eq [of 1 53] by simp
  have r: "round_half_even (of_int (2 ^ 53 + 1) / 2 ^ 1) = 2 ^ 52"
    by code_simp
  have "round_mag (of_int (2 ^ 53 + 1)) = Some (of_int (2 ^ 52 * 2 ^ 1))"
    using round_mag_large_int [of "2 ^ 53 + 1" 1] unfolding r
    using b by (simp add: max_exp_def)
  then show ?thesis by (simp add: fround_def)
qed

lemma fround_tie_54: "fround (2 ^ 54 + 2) = Finite (2 ^ 54)"
proof -
  have b: "bitlen (2 ^ 54 + 2) = 53 + int 2"
    using bitlen_twopow_add_eq [of 2 54] by simp
  have r: "round_half_even (of_int (2 ^ 54 + 2) / 2 ^ 2) = 2 ^ 52"
    by code_simp
  have "round_mag (of_int (2 ^ 54 + 2)) = Some (of_int (2 ^ 52 * 2 ^ 2))"
    using round_mag_large_int [of "2 ^ 54 + 2" 2] unfolding r
    using b by (simp add: max_exp_def)
  then show ?thesis by (simp add: fround_def)
qed

lemma fround_exact_examples:
  "fround (2 ^ 53) = Finite (2 ^ 53)"
  "fround (2 ^ 53 + 2) = Finite (2 ^ 53 + 2)"
  "fround (2 ^ 54) = Finite (2 ^ 54)"
  "fround (1 / 2 ^ 53) = Finite (1 / 2 ^ 53)"
  using fround_representable [of "2 ^ 52" 1 0] fround_representable [of "2 ^ 52 + 1" 1 0]
    fround_representable [of "2 ^ 52" 2 0] fround_representable [of 1 0 53]
  by simp_all

lemmas fround_examples =
  fround_tie_53 [simplified] fround_tie_54 [simplified] fround_exact_examples [simplified]

lemma fround_huge: "fround (2 ^ 1023) = Finite (2 ^ 1023)"
  using fround_representable [of "2 ^ 52" 971 0] by simp

lemma fround_overflow: "fround (2 ^ 1023 + 2 ^ 1023) = Infinity False"
proof -
  have "round_mag (2 ^ 1023 + 2 ^ 1023) = None"
    by (rule round_mag_overflow) (simp add: max_exp_def)
  then show ?thesis by (simp add: fround_def)
qed

text \<open>Rounding in the normal range below \<open>2^53\<close>: a magnitude that \<open>2^j\<close> scales into
  the interval from \<open>2^52\<close> to \<open>2^53\<close> is rounded at that scale.\<close>

lemma round_mag_normal:
  assumes "2 ^ 52 \<le> r * 2 ^ j" "r * 2 ^ j < 2 ^ 53" "j \<le> 1074"
  shows "round_mag r = Some (of_int (round_half_even (r * 2 ^ j)) / 2 ^ j)"
proof -
  define e where "e = min_exp - j"
  define c where "c = round_half_even (r * 2 ^ j)"
  have me: "min_exp = j + e" using assms(3) by (simp add: e_def min_exp_def)
  have s: "r * 2 ^ min_exp = r * 2 ^ j * 2 ^ e" by (simp add: me power_add)
  have lo: "2 ^ (52 + e) \<le> r * 2 ^ min_exp"
    unfolding s power_add using assms(1) by (simp add: mult_right_mono)
  have hi: "r * 2 ^ min_exp < 2 ^ (53 + e)"
    unfolding s power_add using assms(2) by simp
  have "ulp_shift (r * 2 ^ min_exp) \<le> e" using hi by (rule ulp_shift_le)
  moreover have "e \<le> ulp_shift (r * 2 ^ min_exp)"
  proof -
    have "(2::int) ^ (52 + e) \<le> \<lfloor>r * 2 ^ min_exp\<rfloor>" using lo by (simp add: le_floor_iff)
    moreover have "nat (int (53 + e)) - 1 = 52 + e" by simp
    ultimately have "(2::int) ^ (nat (int (53 + e)) - 1) \<le> \<lfloor>r * 2 ^ min_exp\<rfloor>"
      by (simp only:)
    then have "int (53 + e) \<le> bitlen \<lfloor>r * 2 ^ min_exp\<rfloor>"
      unfolding bitlen_ge_iff_power by simp
    then show ?thesis by (simp add: ulp_shift_def)
  qed
  ultimately have sh: "ulp_shift (r * 2 ^ min_exp) = e" by simp
  have d: "r * 2 ^ min_exp / 2 ^ e = r * 2 ^ j" by (simp add: s)
  have ru: "round_units (r * 2 ^ min_exp) = c * 2 ^ e"
    unfolding round_units_def sh d c_def ..
  have "r * 2 ^ j \<le> of_int (2 ^ 53)" using assms(2) by simp
  then have "c \<le> round_half_even (of_int (2 ^ 53))"
    unfolding c_def by (rule round_half_even_mono)
  then have c53: "c \<le> 2 ^ 53" unfolding round_half_even_of_int .
  have "c * 2 ^ e \<le> 2 ^ 53 * 2 ^ e" using c53 by (simp add: mult_right_mono)
  also have "\<dots> = 2 ^ (53 + e)" by (simp add: power_add)
  also have "\<dots> < 2 ^ (max_exp + min_exp)"
    by (rule power_strict_increasing) (simp_all add: e_def max_exp_def min_exp_def)
  finally have no: "\<not> 2 ^ (max_exp + min_exp) \<le> c * 2 ^ e" by simp
  have "(of_int (c * 2 ^ e) :: rat) / 2 ^ min_exp = of_int c / 2 ^ j"
    by (simp add: me power_add)
  with no show ?thesis
    unfolding round_mag_def ru Let_def c_def [symmetric] by simp
qed

lemma fround_normal:
  assumes "2 ^ 52 \<le> r * 2 ^ j" "r * 2 ^ j < 2 ^ 53" "j \<le> 1074"
  shows "fround r = Finite (of_int (round_half_even (r * 2 ^ j)) / 2 ^ j)"
proof -
  have "0 < r * 2 ^ j" using assms(1) by (rule less_le_trans [rotated]) simp
  then have r: "0 < r" by (simp add: zero_less_mult_iff)
  have "of_int (2 ^ 52) \<le> r * 2 ^ j" using assms(1) by simp
  then have "round_half_even (of_int (2 ^ 52)) \<le> round_half_even (r * 2 ^ j)"
    by (rule round_half_even_mono)
  then have "0 < round_half_even (r * 2 ^ j)" unfolding round_half_even_of_int by simp
  then show ?thesis
    using r by (simp add: fround_def round_mag_normal [OF assms])
qed

text \<open>0.1, 0.2 and 0.3 are not doubles; their doubles, and 0.1 + 0.2, which is not the
  double of 0.3.\<close>

lemma fround_tenths:
  "fround (1 / 10) = Finite (3602879701896397 / 2 ^ 55)"
  "fround (2 / 10) = Finite (3602879701896397 / 2 ^ 54)"
  "fround (3 / 10) = Finite (5404319552844595 / 2 ^ 54)"
  "fround (6 / 10) = Finite (5404319552844595 / 2 ^ 53)"
proof -
  have 1: "round_half_even (1 / 10 * 2 ^ 56) = 7205759403792794" by code_simp
  have 2: "round_half_even (2 / 10 * 2 ^ 55) = 7205759403792794" by code_simp
  have 3: "round_half_even (3 / 10 * 2 ^ 54) = 5404319552844595" by code_simp
  have 6: "round_half_even (6 / 10 * 2 ^ 53) = 5404319552844595" by code_simp
  show "fround (1 / 10) = Finite (3602879701896397 / 2 ^ 55)"
    using fround_normal [of "1 / 10" 56] unfolding 1 by simp
  show "fround (2 / 10) = Finite (3602879701896397 / 2 ^ 54)"
    using fround_normal [of "2 / 10" 55] unfolding 2 by simp
  show "fround (3 / 10) = Finite (5404319552844595 / 2 ^ 54)"
    using fround_normal [of "3 / 10" 54] unfolding 3 by simp
  show "fround (6 / 10) = Finite (5404319552844595 / 2 ^ 53)"
    using fround_normal [of "6 / 10" 53] unfolding 6 by simp
qed

lemma tenth_plus_two_tenths:
  "fadd (fround (1 / 10)) (fround (2 / 10)) = Finite (5404319552844596 / 2 ^ 54)"
proof -
  have r: "round_half_even ((3602879701896397 / 2 ^ 55 + 3602879701896397 / 2 ^ 54) * 2 ^ 54)
      = 5404319552844596" by code_simp
  show ?thesis
    unfolding fround_tenths
    using fround_normal [of "3602879701896397 / 2 ^ 55 + 3602879701896397 / 2 ^ 54" 54]
    unfolding r by simp
qed

lemma fround_normal_neg:
  assumes "2 ^ 52 \<le> r * 2 ^ j" "r * 2 ^ j < 2 ^ 53" "j \<le> 1074"
  shows "fround (- r) = Finite (- (of_int (round_half_even (r * 2 ^ j)) / 2 ^ j))"
proof -
  have "0 < r * 2 ^ j" using assms(1) by (rule less_le_trans [rotated]) simp
  then have r: "0 < r" by (simp add: zero_less_mult_iff)
  have "of_int (2 ^ 52) \<le> r * 2 ^ j" using assms(1) by simp
  then have "round_half_even (of_int (2 ^ 52)) \<le> round_half_even (r * 2 ^ j)"
    by (rule round_half_even_mono)
  then have "0 < round_half_even (r * 2 ^ j)" unfolding round_half_even_of_int by simp
  then show ?thesis
    using r by (simp add: fround_def round_mag_normal [OF assms])
qed

lemma fround_minus_six_tenths: "fround (- (6 / 10)) = Finite (- (5404319552844595 / 2 ^ 53))"
proof -
  have 6: "round_half_even (6 / 10 * 2 ^ 53) = 5404319552844595" by code_simp
  show ?thesis using fround_normal_neg [of "6 / 10" 53] unfolding 6 by simp
qed

section \<open>Properties of the comparisons and of division\<close>

lemma feq_not_fgt: "feq x y \<Longrightarrow> \<not> fgt x y"
  by (cases x; cases y) (auto simp: fgt_def)

lemma feq_not_flt: "feq x y \<Longrightarrow> \<not> flt x y"
  by (cases x; cases y) auto

lemma feq_threshold_not_flt_neg:
  "\<not> flt t (Finite 0) \<Longrightarrow> feq x t \<Longrightarrow> \<not> flt x (fneg t)"
  by (cases x; cases t) (auto split: if_splits)

lemma feq_neg_threshold_not_fgt:
  "\<not> flt t (Finite 0) \<Longrightarrow> feq x (fneg t) \<Longrightarrow> \<not> fgt x t"
  by (cases x; cases t) (auto simp: fgt_def split: if_splits)

lemma zero_above_negative: "flt t (Finite 0) \<Longrightarrow> feq x (Finite 0) \<Longrightarrow> fgt x t"
  by (cases x; cases t) (auto simp: fgt_def)

lemma zero_below_neg_negative: "flt t (Finite 0) \<Longrightarrow> feq x (Finite 0) \<Longrightarrow> flt x (fneg t)"
  by (cases x; cases t) (auto split: if_splits)

lemma in_unit_range_finite:
  "is_finite x \<Longrightarrow> \<bar>fval x\<bar> \<le> 1 \<Longrightarrow> in_unit_range x"
  by (cases x) (auto simp: in_unit_range_def)

lemma in_unit_range_signed_zero: "in_unit_range (signed_zero s)"
  by (simp add: in_unit_range_def signed_zero_def)

lemma fsub_finite: "fsub (Finite b) (Finite a) = fround (b - a)"
  by (simp add: fsub_def)

lemma fdiv_by_finite:
  "is_finite x \<Longrightarrow> t \<noteq> 0 \<Longrightarrow>
     fdiv x (Finite t) = (if fval x = 0 then signed_zero (sign_bit x \<noteq> (t < 0))
                          else fround (fval x / t))"
  by (cases x) auto

lemma fdiv_by_infinity:
  "is_finite x \<Longrightarrow> fdiv x (Infinity s) = signed_zero (sign_bit x \<noteq> s)"
  by (cases x) auto

text \<open>The operations return doubles, and the numbers of the examples are doubles.\<close>

lemma is_double_fround: "is_double (fround v)"
proof (cases "round_mag \<bar>v\<bar>")
  case None
  then show ?thesis by (simp add: fround_def is_double_def)
next
  case (Some m)
  have m: "0 \<le> m" by (rule round_mag_nonneg [OF _ Some]) simp
  have "round_mag m = Some m" by (rule round_mag_idem [OF _ Some]) simp
  with m show ?thesis
    unfolding fround_def Some by (simp add: is_double_def signed_zero_def round_mag_zero)
qed

lemma is_double_signed_zero: "is_double (signed_zero s)"
  by (simp add: is_double_def signed_zero_def round_mag_zero)

lemma is_double_fneg: "is_double x \<Longrightarrow> is_double (fneg x)"
  by (cases x) (auto simp: is_double_def round_mag_zero)

lemma is_double_fadd: "is_double (fadd x y)"
  by (cases x; cases y) (simp_all add: is_double_fround, simp_all add: is_double_def)

lemma is_double_fsub: "is_double (fsub x y)"
  by (simp add: fsub_def is_double_fadd)

lemma is_double_fdiv: "is_double (fdiv x y)"
  by (cases x; cases y) (simp_all add: is_double_fround is_double_signed_zero, simp_all add: is_double_def)

lemma is_double_examples:
  "is_double (Finite 1)" "is_double (Finite 3)" "is_double (Finite 5)" "is_double (Finite 6)"
  "is_double (Finite (1 / 2))" "is_double (Finite (- (1 / 2)))"
  "is_double (Finite (2 ^ 53))" "is_double (Finite (2 ^ 1023))"
  using is_double_fround [of 1] is_double_fround [of 3] is_double_fround [of 5]
    is_double_fround [of 6] is_double_fround [of "1 / 2"] is_double_fround [of "- (1 / 2)"]
    is_double_fround [of "2 ^ 53"] is_double_fround [of "2 ^ 1023"]
    fround_exact_examples(1) fround_huge
  by simp_all

section \<open>Volumes of non-negative quantities\<close>

lemma exact_volume_fround:
  assumes "0 \<le> v" shows "exact_volume (fround v)"
proof (cases "round_mag v")
  case None
  then have "fround v = Infinity False" using assms by (simp add: fround_nonneg)
  then show ?thesis by (simp add: exact_volume_def)
next
  case (Some m)
  then have "fround v = Finite m" using assms by (simp add: fround_nonneg)
  moreover have "0 \<le> m" using assms Some by (rule round_mag_nonneg)
  moreover have "round_mag m = Some m" using assms Some by (rule round_mag_idem)
  ultimately show ?thesis by (simp add: exact_volume_def)
qed

lemma exact_volume_fadd:
  assumes "exact_volume x" "fle (Finite 0) y" shows "exact_volume (fadd x y)"
proof (cases x)
  case (Finite r)
  with assms(1) have r: "0 \<le> r" by (simp add: exact_volume_def)
  show ?thesis
  proof (cases y)
    case (Finite q)
    with assms(2) have "0 \<le> q" by simp
    with r show ?thesis using \<open>x = Finite r\<close> Finite by (simp add: exact_volume_fround)
  next
    case Neg_Zero
    with r show ?thesis using \<open>x = Finite r\<close> by (simp add: exact_volume_fround)
  next
    case (Infinity s)
    with assms(2) show ?thesis using \<open>x = Finite r\<close> by (simp add: exact_volume_def)
  next
    case NaN
    with assms(2) show ?thesis by simp
  qed
next
  case Neg_Zero
  with assms(1) show ?thesis by (simp add: exact_volume_def)
next
  case (Infinity s)
  with assms show ?thesis by (cases y) (auto simp: exact_volume_def)
next
  case NaN
  with assms(1) show ?thesis by (simp add: exact_volume_def)
qed

lemma exact_volume_foldl:
  assumes "exact_volume v" "\<forall>q\<in>set qs. fle (Finite 0) q"
  shows "exact_volume (foldl fadd v qs)"
  using assms by (induction qs arbitrary: v) (simp_all add: exact_volume_fadd)

lemma exact_volume_zero: "exact_volume (Finite 0)"
  by (simp add: exact_volume_def round_mag_zero)

lemma exact_volume_total:
  assumes "\<forall>x\<in>set xs. fle (Finite 0) (quantity x)"
  shows "exact_volume (total_volume xs)"
  unfolding total_volume_def using assms by (intro exact_volume_foldl exact_volume_zero) simp

lemma imbalance_in_range:
  assumes "exact_volume B" "exact_volume A" "is_finite B" "is_finite A"
  shows "in_unit_range (if feq (fadd B A) (Finite 0) then Finite 0
                        else fdiv (fsub B A) (fadd B A))"
proof -
  from assms(1,3) obtain b where B: "B = Finite b" and b: "0 \<le> b" "round_mag b = Some b"
    by (cases B) (auto simp: exact_volume_def)
  from assms(2,4) obtain a where A: "A = Finite a" and a: "0 \<le> a" "round_mag a = Some a"
    by (cases A) (auto simp: exact_volume_def)
  have sum: "fadd B A = fround (b + a)" by (simp add: A B)
  have diff: "fsub B A = fround (b - a)" by (simp add: A B fsub_finite)
  have "round_mag (max b a) = Some (max b a)" using a b by (simp add: max_def)
  moreover have "\<bar>b - a\<bar> \<le> max b a" using a b by (simp add: max_def abs_if)
  ultimately obtain d where d: "round_mag \<bar>b - a\<bar> = Some d"
    using round_mag_mono by blast
  note D = fround_finite [OF d]
  show ?thesis
  proof (cases "round_mag (b + a)")
    case None
    then have "fadd B A = Infinity False" using a b by (simp add: sum fround_nonneg)
    then show ?thesis
      using D by (simp add: diff fdiv_by_infinity in_unit_range_signed_zero)
  next
    case (Some t)
    then have T: "fadd B A = Finite t" using a b by (simp add: sum fround_nonneg)
    show ?thesis
    proof (cases "t = 0")
      case True
      then show ?thesis by (simp add: T in_unit_range_def)
    next
      case False
      have "0 \<le> t" by (rule round_mag_nonneg [OF _ Some]) (use a b in simp)
      with False have tpos: "0 < t" by simp
      have "\<bar>b - a\<bar> \<le> b + a" using a b by (simp add: abs_if)
      from round_mag_mono [OF this Some] d have dt: "d \<le> t" by simp
      show ?thesis
      proof (cases "fval (fround (b - a)) = 0")
        case True
        then show ?thesis
          using D False by (simp add: T diff fdiv_by_finite in_unit_range_signed_zero)
      next
        case nz: False
        have "\<bar>fval (fround (b - a)) / t\<bar> = d / t" using D(2) tpos by simp
        also have "\<dots> \<le> 1" using dt tpos by simp
        finally have le1: "\<bar>fval (fround (b - a)) / t\<bar> \<le> 1" .
        from round_mag_mono [OF le1 round_mag_one]
        obtain q where q: "round_mag \<bar>fval (fround (b - a)) / t\<bar> = Some q" "q \<le> 1" by blast
        from fround_finite [OF q(1)] q(2)
        have "in_unit_range (fround (fval (fround (b - a)) / t))"
          by (intro in_unit_range_finite) simp_all
        then show ?thesis
          using D False nz by (simp add: T diff fdiv_by_finite)
      qed
    qed
  qed
qed

lemma imbalance_nan:
  assumes "exact_volume B" "exact_volume A" "\<not> (is_finite B \<and> is_finite A)"
  shows "(if feq (fadd B A) (Finite 0) then Finite 0 else fdiv (fsub B A) (fadd B A)) = NaN"
  using assms by (cases B; cases A) (auto simp: exact_volume_def fsub_def)

lemma whole_quantity_units: "whole_quantity q \<Longrightarrow> q = Finite (of_nat (units_of q))"
  by (cases q) (auto simp: whole_quantity_def units_of_def)

lemma foldl_fadd_whole:
  assumes "\<forall>q\<in>set qs. whole_quantity q" "a + sum_list (map units_of qs) \<le> 2 ^ 53"
  shows "foldl fadd (Finite (of_nat a)) qs = Finite (of_nat (a + sum_list (map units_of qs)))"
  using assms
proof (induction qs arbitrary: a)
  case Nil
  then show ?case by simp
next
  case (Cons q qs)
  from Cons.prems(1) have q: "q = Finite (of_nat (units_of q))"
    by (simp add: whole_quantity_units)
  have le: "a + units_of q \<le> 2 ^ 53" using Cons.prems(2) by simp
  have "fadd (Finite (of_nat a)) q = fround (of_nat (a + units_of q))"
    by (subst q) simp
  also have "\<dots> = Finite (of_nat (a + units_of q))" using le by (rule fround_nat)
  finally have step: "fadd (Finite (of_nat a)) q = Finite (of_nat (a + units_of q))" .
  have "foldl fadd (Finite (of_nat (a + units_of q))) qs
      = Finite (of_nat (a + units_of q + sum_list (map units_of qs)))"
    using Cons.prems by (intro Cons.IH) (simp_all add: add.assoc)
  then show ?case by (simp add: step add.assoc)
qed

lemma side_units_mset:
  "side_units side calls =
     sum_mset (image_mset (\<lambda>(p, q, is_bid). units_of q)
       (filter_mset (\<lambda>(p, q, is_bid). is_bid = side) (mset calls)))"
  unfolding side_units_def by (simp flip: sum_mset_sum_list)

lemma side_units_le:
  "side_units side calls \<le> sum_list (map (\<lambda>(p, q, is_bid). units_of q) calls)"
  unfolding side_units_def by (induction calls) auto

section \<open>Properties of the order book\<close>

lemma bids_add_orders:
  "bids (add_orders calls ob) =
     bids ob @ map (\<lambda>(p, q, b). \<lparr>price = p, quantity = q\<rparr>) (filter (\<lambda>(p, q, b). b) calls)"
  unfolding add_orders_def
  by (induction calls arbitrary: ob) (auto simp: add_order_def)

lemma asks_add_orders:
  "asks (add_orders calls ob) =
     asks ob @ map (\<lambda>(p, q, b). \<lparr>price = p, quantity = q\<rparr>) (filter (\<lambda>(p, q, b). \<not> b) calls)"
  unfolding add_orders_def
  by (induction calls arbitrary: ob) (auto simp: add_order_def)

lemma run_ops_snoc: "run_ops (xs @ [x]) ob = apply_op x (run_ops xs ob)"
  by (simp add: run_ops_def)

lemma since_last_clear_snoc:
  "since_last_clear (xs @ [x]) = (if x = Clear then [] else since_last_clear xs @ [x])"
  by (simp add: since_last_clear_def)

lemma length_bids_run_ops:
  "length (bids (run_ops ops OrderBook_new)) = adds_since_clear True ops"
proof (induction ops rule: rev_induct)
  case Nil
  show ?case by (simp add: run_ops_def OrderBook_new_def adds_since_clear_def since_last_clear_def)
next
  case (snoc x xs)
  then show ?case
    by (cases x) (auto simp: run_ops_snoc adds_since_clear_def since_last_clear_snoc
        add_order_def clear_def)
qed

lemma length_asks_run_ops:
  "length (asks (run_ops ops OrderBook_new)) = adds_since_clear False ops"
proof (induction ops rule: rev_induct)
  case Nil
  show ?case by (simp add: run_ops_def OrderBook_new_def adds_since_clear_def since_last_clear_def)
next
  case (snoc x xs)
  then show ?case
    by (cases x) (auto simp: run_ops_snoc adds_since_clear_def since_last_clear_snoc
        add_order_def clear_def)
qed

lemma sint_word_of_nat_32:
  assumes "n < 2 ^ 31" shows "sint (word_of_nat n :: 32 word) = int n"
proof -
  have "int n < 2 ^ 31" using assms by (simp add: nat_less_numeral_power_cancel_iff)
  then have "signed_take_bit 31 (int n) = int n"
    by (intro signed_take_bit_int_eq_self) auto
  moreover have "sint (word_of_int (int n) :: 32 word) = signed_take_bit (LENGTH(32) - 1) (int n)"
    by (rule sint_sbintrunc')
  ultimately show ?thesis by simp
qed

lemma sum_quantity_foldl: "sum_quantity v xs = foldl fadd v (map quantity xs)"
  by (induction xs arbitrary: v) simp_all

lemma get_imbalance_volumes:
  "get_imbalance ob =
     (if feq (fadd (total_volume (bids ob)) (total_volume (asks ob))) (Finite 0) then Finite 0
      else fdiv (fsub (total_volume (bids ob)) (total_volume (asks ob)))
             (fadd (total_volume (bids ob)) (total_volume (asks ob))))"
  by (simp add: get_imbalance_def total_volume_def sum_quantity_foldl Let_def)

lemma get_imbalance_empty:
  assumes "bids ob = []" "asks ob = []" shows "get_imbalance ob = Finite 0"
  using assms by (simp add: get_imbalance_def Let_def)

lemma quantity_bids_add_orders:
  "map quantity (bids (add_orders calls ob)) =
     map quantity (bids ob) @ map fst (filter snd (map (\<lambda>(p, q, b). (q, b)) calls))"
  by (induction calls) (auto simp: bids_add_orders)

lemma quantity_asks_add_orders:
  "map quantity (asks (add_orders calls ob)) =
     map quantity (asks ob) @
       map fst (filter (\<lambda>c. \<not> snd c) (map (\<lambda>(p, q, b). (q, b)) calls))"
  by (induction calls) (auto simp: asks_add_orders)

lemma quantities_add_orders:
  assumes "\<forall>(p, q, is_bid) \<in> set calls. fle (Finite 0) q"
  shows "\<forall>x \<in> set (bids (add_orders calls OrderBook_new)). fle (Finite 0) (quantity x)"
    and "\<forall>x \<in> set (asks (add_orders calls OrderBook_new)). fle (Finite 0) (quantity x)"
  using assms by (auto simp: bids_add_orders asks_add_orders OrderBook_new_def)

lemma total_volume_bids_whole:
  assumes "\<forall>(p, q, is_bid) \<in> set calls. whole_quantity q"
    and "sum_list (map (\<lambda>(p, q, is_bid). units_of q) calls) \<le> 2 ^ 53"
  shows "total_volume (bids (add_orders calls OrderBook_new)) =
           Finite (of_nat (side_units True calls))"
proof -
  let ?qs = "map quantity (bids (add_orders calls OrderBook_new))"
  have qs: "?qs = map (\<lambda>(p, q, is_bid). q) (filter (\<lambda>(p, q, is_bid). is_bid = True) calls)"
    by (induction calls) (auto simp: bids_add_orders OrderBook_new_def)
  have w: "\<forall>q\<in>set ?qs. whole_quantity q" unfolding qs using assms(1) by auto
  have u: "sum_list (map units_of ?qs) = side_units True calls"
    unfolding qs side_units_def by (simp add: comp_def case_prod_unfold)
  have "0 + sum_list (map units_of ?qs) \<le> 2 ^ 53"
    unfolding u using side_units_le [of True calls] assms(2) by simp
  from foldl_fadd_whole [OF w, of 0, OF this]
  have "foldl fadd (Finite 0) ?qs = Finite (of_nat (sum_list (map units_of ?qs)))"
    by simp
  then show ?thesis
    unfolding total_volume_def u .
qed

lemma total_volume_asks_whole:
  assumes "\<forall>(p, q, is_bid) \<in> set calls. whole_quantity q"
    and "sum_list (map (\<lambda>(p, q, is_bid). units_of q) calls) \<le> 2 ^ 53"
  shows "total_volume (asks (add_orders calls OrderBook_new)) =
           Finite (of_nat (side_units False calls))"
proof -
  let ?qs = "map quantity (asks (add_orders calls OrderBook_new))"
  have qs: "?qs = map (\<lambda>(p, q, is_bid). q) (filter (\<lambda>(p, q, is_bid). is_bid = False) calls)"
    by (induction calls) (auto simp: asks_add_orders OrderBook_new_def)
  have w: "\<forall>q\<in>set ?qs. whole_quantity q" unfolding qs using assms(1) by auto
  have u: "sum_list (map units_of ?qs) = side_units False calls"
    unfolding qs side_units_def by (simp add: comp_def case_prod_unfold)
  have "0 + sum_list (map units_of ?qs) \<le> 2 ^ 53"
    unfolding u using side_units_le [of False calls] assms(2) by simp
  from foldl_fadd_whole [OF w, of 0, OF this]
  have "foldl fadd (Finite 0) ?qs = Finite (of_nat (sum_list (map units_of ?qs)))"
    by simp
  then show ?thesis
    unfolding total_volume_def u .
qed

lemma mset_bids_add_orders:
  "mset (bids (add_orders calls OrderBook_new)) =
     image_mset (\<lambda>(p, q, is_bid). \<lparr>price = p, quantity = q\<rparr>)
       (filter_mset (\<lambda>(p, q, is_bid). is_bid) (mset calls))"
  by (simp add: bids_add_orders OrderBook_new_def)

lemma mset_asks_add_orders:
  "mset (asks (add_orders calls OrderBook_new)) =
     image_mset (\<lambda>(p, q, is_bid). \<lparr>price = p, quantity = q\<rparr>)
       (filter_mset (\<lambda>(p, q, is_bid). \<not> is_bid) (mset calls))"
  by (simp add: asks_add_orders OrderBook_new_def)

text \<open>The imbalance of some books, and the leader book after some market data.\<close>

lemma get_imbalance_bid_only:
  "get_imbalance \<lparr>bids = [\<lparr>price = Finite 5, quantity = Finite 1\<rparr>], asks = []\<rparr> = Finite 1"
  by (simp add: get_imbalance_def fsub_def)

lemma get_imbalance_ask_only:
  "get_imbalance \<lparr>bids = [], asks = [\<lparr>price = Finite 5, quantity = Finite 1\<rparr>]\<rparr> = Finite (- 1)"
  by (simp add: get_imbalance_def fsub_def)

lemma get_imbalance_3_1:
  "get_imbalance \<lparr>bids = [\<lparr>price = Finite 5, quantity = Finite 3\<rparr>],
                  asks = [\<lparr>price = Finite 6, quantity = Finite 1\<rparr>]\<rparr> = Finite (1 / 2)"
  by (simp add: get_imbalance_def fsub_def)

lemma get_imbalance_1_3:
  "get_imbalance \<lparr>bids = [\<lparr>price = Finite 5, quantity = Finite 1\<rparr>],
                  asks = [\<lparr>price = Finite 6, quantity = Finite 3\<rparr>]\<rparr> = Finite (- (1 / 2))"
  by (simp add: get_imbalance_def fsub_def)

lemma leader_after_one:
  "leader_book (on_market_data 0 p1 q1 True (PairStrategy_new t))
     = \<lparr>bids = [\<lparr>price = p1, quantity = q1\<rparr>], asks = []\<rparr>"
  "leader_book (on_market_data 0 p1 q1 False (PairStrategy_new t))
     = \<lparr>bids = [], asks = [\<lparr>price = p1, quantity = q1\<rparr>]\<rparr>"
  "entry_threshold (on_market_data 0 p1 q1 is_bid (PairStrategy_new t)) = t"
  by (simp_all add: on_market_data_def PairStrategy_new_def OrderBook_new_def add_order_def)

lemma leader_after_two:
  "leader_book (on_market_data 0 p2 q2 False (on_market_data 0 p1 q1 True (PairStrategy_new t)))
     = \<lparr>bids = [\<lparr>price = p1, quantity = q1\<rparr>], asks = [\<lparr>price = p2, quantity = q2\<rparr>]\<rparr>"
  "entry_threshold (on_market_data 0 p2 q2 False (on_market_data 0 p1 q1 True (PairStrategy_new t)))
     = t"
  by (simp_all add: on_market_data_def PairStrategy_new_def OrderBook_new_def add_order_def)

lemma leader_new:
  "get_imbalance (leader_book (PairStrategy_new t)) = Finite 0"
  "entry_threshold (PairStrategy_new t) = t"
  by (simp_all add: PairStrategy_new_def OrderBook_new_def get_imbalance_empty)

lemma get_imbalance_bids_overflow:
  assumes "fadd (fadd (Finite 0) q1) q2 = Infinity False"
  shows "get_imbalance (add_orders [(p1, q1, True), (p2, q2, True)] OrderBook_new) = NaN"
  using assms by (simp add: get_imbalance_def add_orders_def add_order_def OrderBook_new_def fsub_def)

lemma get_imbalance_overflow:
  "get_imbalance (add_orders [(Finite 5, Finite (2 ^ 1023), True),
      (Finite 5, Finite (2 ^ 1023), True)] OrderBook_new) = NaN"
proof (rule get_imbalance_bids_overflow)
  show "fadd (fadd (Finite 0) (Finite (2 ^ 1023))) (Finite (2 ^ 1023)) = Infinity False"
    using fround_huge fround_overflow by simp
qed

lemma get_imbalance_big_first:
  "get_imbalance (add_orders [(Finite 5, Finite (2 ^ 53), True), (Finite 5, Finite 1, True),
      (Finite 5, Finite 1, True), (Finite 6, Finite (2 ^ 53), False)] OrderBook_new) = Finite 0"
  by (simp add: get_imbalance_def add_orders_def add_order_def OrderBook_new_def fsub_def Let_def
      fround_examples signed_zero_def)

lemma get_imbalance_big_last:
  "get_imbalance (add_orders [(Finite 5, Finite 1, True), (Finite 5, Finite 1, True),
      (Finite 5, Finite (2 ^ 53), True), (Finite 6, Finite (2 ^ 53), False)] OrderBook_new)
     = Finite (1 / 2 ^ 53)"
  by (simp add: get_imbalance_def add_orders_def add_order_def OrderBook_new_def fsub_def Let_def
      fround_examples signed_zero_def)

lemma total_volume_big_first:
  "total_volume (bids (add_orders [(Finite 5, Finite (2 ^ 53), True), (Finite 5, Finite 1, True),
      (Finite 5, Finite 1, True), (Finite 6, Finite (2 ^ 53), False)] OrderBook_new))
     = Finite (2 ^ 53)"
  by (simp add: total_volume_def add_orders_def add_order_def OrderBook_new_def Let_def fround_examples)

lemma total_volume_big_last:
  "total_volume (bids (add_orders [(Finite 5, Finite 1, True), (Finite 5, Finite 1, True),
      (Finite 5, Finite (2 ^ 53), True), (Finite 6, Finite (2 ^ 53), False)] OrderBook_new))
     = Finite (2 ^ 53 + 2)"
  by (simp add: total_volume_def add_orders_def add_order_def OrderBook_new_def Let_def fround_examples)

section \<open>The scenarios of the specification\<close>

text \<open>
  The scenarios of the specification with threshold 0.2: a leader book with a bid of 80
  and an ask of 20 has imbalance 0.6 and the signal is Buy; with a bid of 20 and an ask
  of 80 the imbalance is -0.6 and the signal is Sell; with a bid of 50 and an ask of 50
  the imbalance is 0.0 and there is no signal.
\<close>

lemma scenario_buy:
  "check_signals (on_market_data 0 (Finite 101) (Finite 20) False
     (on_market_data 0 (Finite 100) (Finite 80) True (PairStrategy_new (fround (2 / 10))))) = 1"
proof -
  have "get_imbalance \<lparr>bids = [\<lparr>price = Finite 100, quantity = Finite 80\<rparr>],
      asks = [\<lparr>price = Finite 101, quantity = Finite 20\<rparr>]\<rparr> = fround (6 / 10)"
    by (simp add: get_imbalance_def fsub_def Let_def)
  then show ?thesis
    by (simp add: check_signals_def leader_after_two fround_tenths [simplified] fgt_def Let_def)
qed

lemma scenario_sell:
  "check_signals (on_market_data 0 (Finite 101) (Finite 80) False
     (on_market_data 0 (Finite 100) (Finite 20) True (PairStrategy_new (fround (2 / 10))))) = - 1"
proof -
  have "get_imbalance \<lparr>bids = [\<lparr>price = Finite 100, quantity = Finite 20\<rparr>],
      asks = [\<lparr>price = Finite 101, quantity = Finite 80\<rparr>]\<rparr> = fround (- (6 / 10))"
    by (simp add: get_imbalance_def fsub_def Let_def)
  then show ?thesis
    by (simp add: check_signals_def leader_after_two fround_tenths [simplified]
        fround_minus_six_tenths [simplified] fgt_def Let_def)
qed

lemma scenario_none:
  "check_signals (on_market_data 0 (Finite 101) (Finite 50) False
     (on_market_data 0 (Finite 100) (Finite 50) True (PairStrategy_new (fround (2 / 10))))) = 0"
proof -
  have "get_imbalance \<lparr>bids = [\<lparr>price = Finite 100, quantity = Finite 50\<rparr>],
      asks = [\<lparr>price = Finite 101, quantity = Finite 50\<rparr>]\<rparr> = Finite 0"
    by (simp add: get_imbalance_def fsub_def Let_def signed_zero_def)
  then show ?thesis
    by (simp add: check_signals_def leader_after_two fround_tenths [simplified] fgt_def Let_def)
qed

section \<open>The claims\<close>

text \<open>
  C1. For every state of the book, \<open>get_imbalance\<close> returns exactly 0.0 when the sum of
  the bid quantities plus the sum of the ask quantities compares equal to 0, and otherwise
  the difference of the two sums divided by their sum. The sums are those of
  \<open>total_volume\<close>: the quantities added up from 0.0 in sequence order.
\<close>

theorem get_imbalance_formula:
  "(feq (fadd (total_volume (bids ob)) (total_volume (asks ob))) (Finite 0)
      \<longrightarrow> get_imbalance ob = Finite 0) \<and>
   (\<not> feq (fadd (total_volume (bids ob)) (total_volume (asks ob))) (Finite 0)
      \<longrightarrow> get_imbalance ob =
            fdiv (fsub (total_volume (bids ob)) (total_volume (asks ob)))
              (fadd (total_volume (bids ob)) (total_volume (asks ob))))"
  by (simp add: get_imbalance_volumes)

theorem get_imbalance_formula_witness:
  "feq (fadd (total_volume (bids OrderBook_new)) (total_volume (asks OrderBook_new))) (Finite 0) \<and>
   get_imbalance OrderBook_new = Finite 0 \<and>
   \<not> feq (fadd (total_volume [\<lparr>price = Finite 5, quantity = Finite 1\<rparr>])
            (total_volume [\<lparr>price = Finite 6, quantity = Finite 3\<rparr>])) (Finite 0) \<and>
   get_imbalance \<lparr>bids = [\<lparr>price = Finite 5, quantity = Finite 1\<rparr>],
                  asks = [\<lparr>price = Finite 6, quantity = Finite 3\<rparr>]\<rparr> = Finite (- (1 / 2))"
proof -
  let ?ob = "\<lparr>bids = [\<lparr>price = Finite 5, quantity = Finite 1\<rparr>],
              asks = [\<lparr>price = Finite 6, quantity = Finite 3\<rparr>]\<rparr>"
  have a: "feq (fadd (total_volume (bids OrderBook_new)) (total_volume (asks OrderBook_new)))
             (Finite 0)"
    by (simp add: OrderBook_new_def total_volume_def fround_zero)
  have b: "\<not> feq (fadd (total_volume (bids ?ob)) (total_volume (asks ?ob))) (Finite 0)"
    by (simp add: total_volume_def fround_zero)
  have c: "fdiv (fsub (total_volume (bids ?ob)) (total_volume (asks ?ob)))
              (fadd (total_volume (bids ?ob)) (total_volume (asks ?ob))) = Finite (- (1 / 2))"
    by (simp add: total_volume_def fround_zero fsub_def)
  from get_imbalance_formula [of OrderBook_new] a
  have "get_imbalance OrderBook_new = Finite 0" by blast
  moreover from get_imbalance_formula [of ?ob] b c
  have "get_imbalance ?ob = Finite (- (1 / 2))" by simp
  ultimately show ?thesis using a b by simp
qed

text \<open>
  C2, as the code has it. \<open>check_signals\<close> returns Buy (1) if the imbalance of the
  leader book is greater than the threshold \<open>T\<close>; otherwise Sell (-1) if it is less than
  \<open>-T\<close>; otherwise None (0). When \<open>T\<close> is not negative, an imbalance equal to \<open>T\<close> or to
  \<open>-T\<close> gives None (0).
\<close>

theorem check_signals_cases:
  "(fgt (get_imbalance (leader_book ps)) (entry_threshold ps) \<longrightarrow> check_signals ps = 1) \<and>
   (\<not> fgt (get_imbalance (leader_book ps)) (entry_threshold ps) \<and>
    flt (get_imbalance (leader_book ps)) (fneg (entry_threshold ps))
      \<longrightarrow> check_signals ps = - 1) \<and>
   (\<not> fgt (get_imbalance (leader_book ps)) (entry_threshold ps) \<and>
    \<not> flt (get_imbalance (leader_book ps)) (fneg (entry_threshold ps))
      \<longrightarrow> check_signals ps = 0) \<and>
   (\<not> flt (entry_threshold ps) (Finite 0) \<and>
    (feq (get_imbalance (leader_book ps)) (entry_threshold ps) \<or>
     feq (get_imbalance (leader_book ps)) (fneg (entry_threshold ps)))
      \<longrightarrow> check_signals ps = 0)"
  using feq_not_fgt feq_threshold_not_flt_neg feq_neg_threshold_not_fgt feq_not_flt
  by (auto simp: check_signals_def Let_def)

theorem check_signals_cases_witness:
  "check_signals (on_market_data 0 (Finite 5) (Finite 1) True (PairStrategy_new (Finite (1 / 2))))
     = 1 \<and>
   check_signals (on_market_data 0 (Finite 5) (Finite 1) False (PairStrategy_new (Finite (1 / 2))))
     = - 1 \<and>
   check_signals (PairStrategy_new (Finite (1 / 2))) = 0 \<and>
   feq (get_imbalance (leader_book
          (on_market_data 0 (Finite 6) (Finite 1) False
            (on_market_data 0 (Finite 5) (Finite 3) True (PairStrategy_new (Finite (1 / 2)))))))
       (Finite (1 / 2)) \<and>
   check_signals
          (on_market_data 0 (Finite 6) (Finite 1) False
            (on_market_data 0 (Finite 5) (Finite 3) True (PairStrategy_new (Finite (1 / 2)))))
     = 0 \<and>
   feq (get_imbalance (leader_book
          (on_market_data 0 (Finite 6) (Finite 3) False
            (on_market_data 0 (Finite 5) (Finite 1) True (PairStrategy_new (Finite (1 / 2)))))))
       (fneg (Finite (1 / 2))) \<and>
   check_signals
          (on_market_data 0 (Finite 6) (Finite 3) False
            (on_market_data 0 (Finite 5) (Finite 1) True (PairStrategy_new (Finite (1 / 2)))))
     = 0"
proof -
  let ?t = "Finite (1 / 2)"
  let ?buy = "on_market_data 0 (Finite 5) (Finite 1) True (PairStrategy_new ?t)"
  let ?sell = "on_market_data 0 (Finite 5) (Finite 1) False (PairStrategy_new ?t)"
  let ?none = "PairStrategy_new ?t"
  let ?upper = "on_market_data 0 (Finite 6) (Finite 1) False
            (on_market_data 0 (Finite 5) (Finite 3) True (PairStrategy_new ?t))"
  let ?lower = "on_market_data 0 (Finite 6) (Finite 3) False
            (on_market_data 0 (Finite 5) (Finite 1) True (PairStrategy_new ?t))"
  have buy: "fgt (get_imbalance (leader_book ?buy)) (entry_threshold ?buy)"
    by (simp add: leader_after_one get_imbalance_bid_only fgt_def)
  have sell: "\<not> fgt (get_imbalance (leader_book ?sell)) (entry_threshold ?sell) \<and>
      flt (get_imbalance (leader_book ?sell)) (fneg (entry_threshold ?sell))"
    by (simp add: leader_after_one get_imbalance_ask_only fgt_def)
  have none: "\<not> fgt (get_imbalance (leader_book ?none)) (entry_threshold ?none) \<and>
      \<not> flt (get_imbalance (leader_book ?none)) (fneg (entry_threshold ?none))"
    by (simp add: leader_new fgt_def)
  have upper: "\<not> flt (entry_threshold ?upper) (Finite 0) \<and>
      (feq (get_imbalance (leader_book ?upper)) (entry_threshold ?upper) \<or>
       feq (get_imbalance (leader_book ?upper)) (fneg (entry_threshold ?upper)))"
    by (simp add: leader_after_two get_imbalance_3_1)
  have lower: "\<not> flt (entry_threshold ?lower) (Finite 0) \<and>
      (feq (get_imbalance (leader_book ?lower)) (entry_threshold ?lower) \<or>
       feq (get_imbalance (leader_book ?lower)) (fneg (entry_threshold ?lower)))"
    by (simp add: leader_after_two get_imbalance_1_3)
  have 1: "check_signals ?buy = 1"
    using check_signals_cases [of ?buy] buy by blast
  have 2: "check_signals ?sell = - 1"
    using check_signals_cases [of ?sell] sell by blast
  have 3: "check_signals ?none = 0"
    using check_signals_cases [of ?none] none by blast
  have 4: "check_signals ?upper = 0"
    using check_signals_cases [of ?upper] upper by blast
  have 5: "check_signals ?lower = 0"
    using check_signals_cases [of ?lower] lower by blast
  have 6: "feq (get_imbalance (leader_book ?upper)) (Finite (1 / 2))"
    by (simp add: leader_after_two get_imbalance_3_1)
  have 7: "feq (get_imbalance (leader_book ?lower)) (fneg (Finite (1 / 2)))"
    by (simp add: leader_after_two get_imbalance_1_3)
  from 1 2 3 4 5 6 7 show ?thesis by blast
qed

text \<open>
  C2 as stated fails for a negative threshold: with \<open>T = -0.5\<close> and a leader book of
  one bid of quantity 1 and one ask of quantity 3, the imbalance is -0.5, equal to \<open>T\<close>,
  and the signal is Sell (-1), not None (0).
\<close>

theorem check_signals_cases_counterexample:
  "feq (get_imbalance (leader_book
          (on_market_data 0 (Finite 6) (Finite 3) False
            (on_market_data 0 (Finite 5) (Finite 1) True (PairStrategy_new (Finite (- (1 / 2))))))))
       (entry_threshold
          (on_market_data 0 (Finite 6) (Finite 3) False
            (on_market_data 0 (Finite 5) (Finite 1) True (PairStrategy_new (Finite (- (1 / 2))))))) \<and>
   check_signals
          (on_market_data 0 (Finite 6) (Finite 3) False
            (on_market_data 0 (Finite 5) (Finite 1) True (PairStrategy_new (Finite (- (1 / 2))))))
     = - 1 \<and>
   (- 1 :: int32) \<noteq> 0"
  by (simp add: check_signals_def leader_after_two get_imbalance_1_3 fgt_def)

text \<open>
  C3, as the code has it. Two sequences of \<open>add_order\<close> calls that are permutations of
  each other leave the same orders in \<open>bids\<close> and the same orders in \<open>asks\<close> (as
  multisets). When every quantity is a non-negative whole number and the quantities sum to
  at most \<open>2^53\<close>, so that every addition is exact, the total bid volume, the total ask
  volume and the imbalance are the same as well.
\<close>

theorem add_orders_permuted:
  assumes "mset calls = mset calls'"
  shows "mset (bids (add_orders calls OrderBook_new)) =
           mset (bids (add_orders calls' OrderBook_new)) \<and>
         mset (asks (add_orders calls OrderBook_new)) =
           mset (asks (add_orders calls' OrderBook_new)) \<and>
         ((\<forall>(p, q, is_bid) \<in> set calls. whole_quantity q) \<and>
          sum_list (map (\<lambda>(p, q, is_bid). units_of q) calls) \<le> 2 ^ 53 \<longrightarrow>
            total_volume (bids (add_orders calls OrderBook_new)) =
              total_volume (bids (add_orders calls' OrderBook_new)) \<and>
            total_volume (asks (add_orders calls OrderBook_new)) =
              total_volume (asks (add_orders calls' OrderBook_new)) \<and>
            get_imbalance (add_orders calls OrderBook_new) =
              get_imbalance (add_orders calls' OrderBook_new))"
proof (intro conjI impI)
  show "mset (bids (add_orders calls OrderBook_new)) =
        mset (bids (add_orders calls' OrderBook_new))"
    unfolding mset_bids_add_orders assms ..
  show "mset (asks (add_orders calls OrderBook_new)) =
        mset (asks (add_orders calls' OrderBook_new))"
    unfolding mset_asks_add_orders assms ..
next
  assume h: "(\<forall>(p, q, is_bid) \<in> set calls. whole_quantity q) \<and>
      sum_list (map (\<lambda>(p, q, is_bid). units_of q) calls) \<le> 2 ^ 53"
  have set: "set calls' = set calls" using mset_eq_setD [OF assms] by simp
  have "mset (map (\<lambda>(p, q, is_bid). units_of q) calls') =
        mset (map (\<lambda>(p, q, is_bid). units_of q) calls)"
    using assms by simp
  then have "sum_mset (mset (map (\<lambda>(p, q, is_bid). units_of q) calls')) =
        sum_mset (mset (map (\<lambda>(p, q, is_bid). units_of q) calls))"
    by (rule arg_cong)
  then have "sum_list (map (\<lambda>(p, q, is_bid). units_of q) calls') =
        sum_list (map (\<lambda>(p, q, is_bid). units_of q) calls)"
    by (simp only: sum_mset_sum_list)
  with h set have h': "\<forall>(p, q, is_bid) \<in> set calls'. whole_quantity q"
      "sum_list (map (\<lambda>(p, q, is_bid). units_of q) calls') \<le> 2 ^ 53"
    by simp_all
  from h have h1: "\<forall>(p, q, is_bid) \<in> set calls. whole_quantity q"
      "sum_list (map (\<lambda>(p, q, is_bid). units_of q) calls) \<le> 2 ^ 53"
    by simp_all
  have s: "side_units side calls = side_units side calls'" for side
    unfolding side_units_mset assms ..
  show b: "total_volume (bids (add_orders calls OrderBook_new)) =
        total_volume (bids (add_orders calls' OrderBook_new))"
    by (simp add: total_volume_bids_whole [OF h1] total_volume_bids_whole [OF h'] s)
  show a: "total_volume (asks (add_orders calls OrderBook_new)) =
        total_volume (asks (add_orders calls' OrderBook_new))"
    by (simp add: total_volume_asks_whole [OF h1] total_volume_asks_whole [OF h'] s)
  show "get_imbalance (add_orders calls OrderBook_new) =
        get_imbalance (add_orders calls' OrderBook_new)"
    by (simp add: get_imbalance_volumes a b)
qed

theorem add_orders_permuted_witness:
  "mset [(Finite 5, Finite 80, True), (Finite 6, Finite 20, False), (Finite 5, Finite 3, True)] =
   mset [(Finite 5, Finite 3, True), (Finite 5, Finite 80, True), (Finite 6, Finite 20, False)] \<and>
   whole_quantity (Finite 80) \<and> whole_quantity (Finite 20) \<and> whole_quantity (Finite 3) \<and>
   units_of (Finite 80) + units_of (Finite 20) + units_of (Finite 3) \<le> 2 ^ 53 \<and>
   total_volume (bids (add_orders
     [(Finite 5, Finite 80, True), (Finite 6, Finite 20, False), (Finite 5, Finite 3, True)]
     OrderBook_new)) =
   total_volume (bids (add_orders
     [(Finite 5, Finite 3, True), (Finite 5, Finite 80, True), (Finite 6, Finite 20, False)]
     OrderBook_new)) \<and>
   get_imbalance (add_orders
     [(Finite 5, Finite 80, True), (Finite 6, Finite 20, False), (Finite 5, Finite 3, True)]
     OrderBook_new) =
   get_imbalance (add_orders
     [(Finite 5, Finite 3, True), (Finite 5, Finite 80, True), (Finite 6, Finite 20, False)]
     OrderBook_new)"
proof -
  let ?c = "[(Finite 5, Finite 80, True), (Finite 6, Finite 20, False), (Finite 5, Finite 3, True)]"
  let ?c' = "[(Finite 5, Finite 3, True), (Finite 5, Finite 80, True), (Finite 6, Finite 20, False)]"
  have p: "mset ?c = mset ?c'" by simp
  have w: "whole_quantity (Finite 80)" "whole_quantity (Finite 20)" "whole_quantity (Finite 3)"
    by (simp_all add: whole_quantity_def)
  have u: "units_of (Finite 80) + units_of (Finite 20) + units_of (Finite 3) \<le> 2 ^ 53"
    by (simp add: units_of_def)
  have h: "(\<forall>(p, q, is_bid) \<in> set ?c. whole_quantity q) \<and>
      sum_list (map (\<lambda>(p, q, is_bid). units_of q) ?c) \<le> 2 ^ 53"
    using w u by simp
  from add_orders_permuted [OF p] h
  have "total_volume (bids (add_orders ?c OrderBook_new)) =
          total_volume (bids (add_orders ?c' OrderBook_new)) \<and>
        get_imbalance (add_orders ?c OrderBook_new) = get_imbalance (add_orders ?c' OrderBook_new)"
    by blast
  with p w u show ?thesis by blast
qed

text \<open>
  C3 as stated fails, because the rounded sum depends on the order of the additions:
  bids of \<open>2^53\<close>, 1 and 1 add up to \<open>2^53\<close> in this order and to \<open>2^53 + 2\<close> with
  the large one last. With one ask of \<open>2^53\<close> the imbalance is 0.0 in the first order
  and \<open>2^-53\<close> in the second.
\<close>

theorem add_orders_permuted_counterexample:
  "mset [(Finite 5, Finite (2 ^ 53), True), (Finite 5, Finite 1, True),
         (Finite 5, Finite 1, True), (Finite 6, Finite (2 ^ 53), False)] =
   mset [(Finite 5, Finite 1, True), (Finite 5, Finite 1, True),
         (Finite 5, Finite (2 ^ 53), True), (Finite 6, Finite (2 ^ 53), False)] \<and>
   total_volume (bids (add_orders [(Finite 5, Finite (2 ^ 53), True), (Finite 5, Finite 1, True),
      (Finite 5, Finite 1, True), (Finite 6, Finite (2 ^ 53), False)] OrderBook_new)) \<noteq>
   total_volume (bids (add_orders [(Finite 5, Finite 1, True), (Finite 5, Finite 1, True),
      (Finite 5, Finite (2 ^ 53), True), (Finite 6, Finite (2 ^ 53), False)] OrderBook_new)) \<and>
   get_imbalance (add_orders [(Finite 5, Finite (2 ^ 53), True), (Finite 5, Finite 1, True),
      (Finite 5, Finite 1, True), (Finite 6, Finite (2 ^ 53), False)] OrderBook_new) \<noteq>
   get_imbalance (add_orders [(Finite 5, Finite 1, True), (Finite 5, Finite 1, True),
      (Finite 5, Finite (2 ^ 53), True), (Finite 6, Finite (2 ^ 53), False)] OrderBook_new)"
  unfolding get_imbalance_big_first get_imbalance_big_last total_volume_big_first
    total_volume_big_last
  by simp

text \<open>
  C4, as the code has it. After a sequence of \<open>add_order\<close> calls in which every
  quantity is non-negative, \<open>get_imbalance\<close> lies in the closed interval from -1 to 1
  provided that the total bid volume and the total ask volume are both finite; when one of
  them is infinite (a sum that overflowed, or an infinite quantity) the result is a NaN.
\<close>

theorem get_imbalance_range:
  assumes "\<forall>(p, q, is_bid) \<in> set calls. fle (Finite 0) q"
  shows "(is_finite (total_volume (bids (add_orders calls OrderBook_new))) \<and>
          is_finite (total_volume (asks (add_orders calls OrderBook_new)))
            \<longrightarrow> in_unit_range (get_imbalance (add_orders calls OrderBook_new))) \<and>
         (\<not> (is_finite (total_volume (bids (add_orders calls OrderBook_new))) \<and>
             is_finite (total_volume (asks (add_orders calls OrderBook_new))))
            \<longrightarrow> get_imbalance (add_orders calls OrderBook_new) = NaN)"
proof -
  let ?B = "total_volume (bids (add_orders calls OrderBook_new))"
  let ?A = "total_volume (asks (add_orders calls OrderBook_new))"
  have B: "exact_volume ?B" and A: "exact_volume ?A"
    using quantities_add_orders [OF assms] by (simp_all add: exact_volume_total)
  show ?thesis
    unfolding get_imbalance_volumes
    using imbalance_in_range [OF B A] imbalance_nan [OF B A] by blast
qed

theorem get_imbalance_range_witness:
  "fle (Finite 0) (Finite 3) \<and> fle (Finite 0) (Finite 1) \<and>
   is_finite (total_volume (bids (add_orders
     [(Finite 5, Finite 3, True), (Finite 6, Finite 1, False)] OrderBook_new))) \<and>
   is_finite (total_volume (asks (add_orders
     [(Finite 5, Finite 3, True), (Finite 6, Finite 1, False)] OrderBook_new))) \<and>
   in_unit_range (get_imbalance (add_orders
     [(Finite 5, Finite 3, True), (Finite 6, Finite 1, False)] OrderBook_new)) \<and>
   fle (Finite 0) (Infinity False) \<and>
   \<not> is_finite (total_volume (bids (add_orders [(Finite 5, Infinity False, True)] OrderBook_new))) \<and>
   get_imbalance (add_orders [(Finite 5, Infinity False, True)] OrderBook_new) = NaN"
proof -
  let ?c = "[(Finite 5, Finite 3, True), (Finite 6, Finite 1, False)]"
  let ?d = "[(Finite 5, Infinity False, True)]"
  have q: "fle (Finite 0) (Finite 3)" "fle (Finite 0) (Finite 1)" "fle (Finite 0) (Infinity False)"
    by simp_all
  have hc: "\<forall>(p, q, is_bid) \<in> set ?c. fle (Finite 0) q" by simp
  have hd: "\<forall>(p, q, is_bid) \<in> set ?d. fle (Finite 0) q" by simp
  have fc: "is_finite (total_volume (bids (add_orders ?c OrderBook_new)))"
      "is_finite (total_volume (asks (add_orders ?c OrderBook_new)))"
    by (simp_all add: total_volume_def add_orders_def add_order_def OrderBook_new_def Let_def)
  have fd: "\<not> is_finite (total_volume (bids (add_orders ?d OrderBook_new)))"
    by (simp add: total_volume_def add_orders_def add_order_def OrderBook_new_def Let_def)
  from get_imbalance_range [OF hc] fc
  have 1: "in_unit_range (get_imbalance (add_orders ?c OrderBook_new))" by blast
  from get_imbalance_range [OF hd] fd
  have 2: "get_imbalance (add_orders ?d OrderBook_new) = NaN" by blast
  from q fc fd 1 2 show ?thesis by blast
qed

text \<open>
  C4 as stated fails when a sum overflows: two bids of quantity \<open>2^1023\<close> add up to
  infinity, and infinity divided by infinity is a NaN, which is not in the interval.
\<close>

theorem get_imbalance_range_counterexample:
  "fle (Finite 0) (Finite (2 ^ 1023)) \<and>
   \<not> in_unit_range (get_imbalance (add_orders [(Finite 5, Finite (2 ^ 1023), True),
      (Finite 5, Finite (2 ^ 1023), True)] OrderBook_new))"
  unfolding get_imbalance_overflow by (simp add: in_unit_range_def)

text \<open>
  C5, as the code has it. The lengths of \<open>bids\<close> and \<open>asks\<close> are the numbers of
  \<open>add_order\<close> calls of each side since the last \<open>clear()\<close>, and \<open>get_bid_count\<close>
  and \<open>get_ask_count\<close> return these numbers as long as they are below \<open>2^31\<close>: the
  result is an \<open>int\<close>.
\<close>

theorem counts_since_clear:
  "length (bids (run_ops ops OrderBook_new)) = adds_since_clear True ops \<and>
   length (asks (run_ops ops OrderBook_new)) = adds_since_clear False ops \<and>
   (adds_since_clear True ops < 2 ^ 31 \<longrightarrow>
      sint (get_bid_count (run_ops ops OrderBook_new)) = int (adds_since_clear True ops)) \<and>
   (adds_since_clear False ops < 2 ^ 31 \<longrightarrow>
      sint (get_ask_count (run_ops ops OrderBook_new)) = int (adds_since_clear False ops))"
  by (simp add: get_bid_count_def get_ask_count_def length_bids_run_ops length_asks_run_ops
      sint_word_of_nat_32)

theorem counts_since_clear_witness:
  "adds_since_clear True
     [Add_order (Finite 5) (Finite 1) True, Add_order (Finite 6) (Finite 1) False, Clear,
      Add_order (Finite 5) (Finite 2) True, Get_bid_count, Add_order (Finite 5) (Finite 3) True,
      Add_order (Finite 6) (Finite 4) False] = 2 \<and>
   adds_since_clear False
     [Add_order (Finite 5) (Finite 1) True, Add_order (Finite 6) (Finite 1) False, Clear,
      Add_order (Finite 5) (Finite 2) True, Get_bid_count, Add_order (Finite 5) (Finite 3) True,
      Add_order (Finite 6) (Finite 4) False] = 1 \<and>
   sint (get_bid_count (run_ops
     [Add_order (Finite 5) (Finite 1) True, Add_order (Finite 6) (Finite 1) False, Clear,
      Add_order (Finite 5) (Finite 2) True, Get_bid_count, Add_order (Finite 5) (Finite 3) True,
      Add_order (Finite 6) (Finite 4) False] OrderBook_new)) = 2 \<and>
   sint (get_ask_count (run_ops
     [Add_order (Finite 5) (Finite 1) True, Add_order (Finite 6) (Finite 1) False, Clear,
      Add_order (Finite 5) (Finite 2) True, Get_bid_count, Add_order (Finite 5) (Finite 3) True,
      Add_order (Finite 6) (Finite 4) False] OrderBook_new)) = 1"
proof -
  let ?ops = "[Add_order (Finite 5) (Finite 1) True, Add_order (Finite 6) (Finite 1) False, Clear,
      Add_order (Finite 5) (Finite 2) True, Get_bid_count, Add_order (Finite 5) (Finite 3) True,
      Add_order (Finite 6) (Finite 4) False]"
  have a: "adds_since_clear True ?ops = 2" "adds_since_clear False ?ops = 1"
    by (simp_all add: adds_since_clear_def since_last_clear_def)
  from counts_since_clear [of ?ops] a show ?thesis by simp
qed

text \<open>
  C5 as stated fails once a side holds \<open>2^31\<close> orders: the count returned is negative.
\<close>

theorem counts_since_clear_counterexample:
  "sint (get_bid_count
      (run_ops (replicate (2 ^ 31) (Add_order (Finite 1) (Finite 1) True)) OrderBook_new))
   \<noteq> int (adds_since_clear True (replicate (2 ^ 31) (Add_order (Finite 1) (Finite 1) True)))"
  by (simp add: get_bid_count_def length_bids_run_ops adds_since_clear_def since_last_clear_def)

text \<open>
  C6. A call of \<open>on_market_data\<close> whose role is neither 0 (leader) nor 1 (follower)
  leaves the strategy, and so both books, as they were; nothing is raised.
\<close>

theorem on_market_data_other_role:
  "symbol_type \<noteq> 0 \<Longrightarrow> symbol_type \<noteq> 1 \<Longrightarrow>
     on_market_data symbol_type p q is_bid ps = ps"
  by (simp add: on_market_data_def)

theorem on_market_data_other_role_witness:
  "(2 :: int32) \<noteq> 0 \<and> (2 :: int32) \<noteq> 1 \<and>
   on_market_data 2 (Finite 5) (Finite 1) True (PairStrategy_new (Finite (1 / 2)))
     = PairStrategy_new (Finite (1 / 2)) \<and>
   (- 1 :: int32) \<noteq> 0 \<and> (- 1 :: int32) \<noteq> 1 \<and>
   on_market_data (- 1) (Finite 5) (Finite 1) False (PairStrategy_new (Finite (1 / 2)))
     = PairStrategy_new (Finite (1 / 2))"
proof -
  have a: "(2 :: int32) \<noteq> 0" "(2 :: int32) \<noteq> 1" by simp_all
  have b: "(- 1 :: int32) \<noteq> 0" "(- 1 :: int32) \<noteq> 1" by simp_all
  show ?thesis
    using a b on_market_data_other_role [OF a] on_market_data_other_role [OF b] by simp
qed

text \<open>
  C7. After \<open>clear()\<close> both sequences are empty, \<open>get_imbalance\<close> returns exactly 0.0
  and both counts are 0, whatever the book held before; the same holds for
  \<open>get_leader_imbalance\<close> of a strategy whose leader book has been cleared.
\<close>

theorem clear_empties:
  "bids (clear ob) = [] \<and> asks (clear ob) = [] \<and>
   get_imbalance (clear ob) = Finite 0 \<and>
   sint (get_bid_count (clear ob)) = 0 \<and> sint (get_ask_count (clear ob)) = 0 \<and>
   get_leader_imbalance (ps\<lparr>leader_book := clear (leader_book ps)\<rparr>) = Finite 0"
  by (simp add: get_leader_imbalance_def get_imbalance_empty get_bid_count_def get_ask_count_def
      clear_def)

theorem clear_empties_witness:
  "get_imbalance \<lparr>bids = [\<lparr>price = Finite 5, quantity = Finite 1\<rparr>],
                  asks = [\<lparr>price = Finite 6, quantity = Finite 3\<rparr>]\<rparr> = Finite (- (1 / 2)) \<and>
   bids (clear \<lparr>bids = [\<lparr>price = Finite 5, quantity = Finite 1\<rparr>],
                asks = [\<lparr>price = Finite 6, quantity = Finite 3\<rparr>]\<rparr>) = [] \<and>
   asks (clear \<lparr>bids = [\<lparr>price = Finite 5, quantity = Finite 1\<rparr>],
                asks = [\<lparr>price = Finite 6, quantity = Finite 3\<rparr>]\<rparr>) = [] \<and>
   get_imbalance (clear \<lparr>bids = [\<lparr>price = Finite 5, quantity = Finite 1\<rparr>],
                         asks = [\<lparr>price = Finite 6, quantity = Finite 3\<rparr>]\<rparr>) = Finite 0"
proof -
  let ?ob = "\<lparr>bids = [\<lparr>price = Finite 5, quantity = Finite 1\<rparr>],
              asks = [\<lparr>price = Finite 6, quantity = Finite 3\<rparr>]\<rparr>"
  have "get_imbalance ?ob = Finite (- (1 / 2))"
    by (simp add: get_imbalance_def fsub_def)
  with clear_empties [of ?ob] show ?thesis by simp
qed

text \<open>
  C8. \<open>add_order(price, quantity, is_bid)\<close> appends one order with that price and
  quantity at the end of \<open>bids\<close> if \<open>is_bid\<close> and at the end of \<open>asks\<close> otherwise; the
  other sequence and the orders already there stay as they were.
\<close>

theorem add_order_appends:
  "(is_bid \<longrightarrow>
      bids (add_order p q is_bid ob) = bids ob @ [\<lparr>price = p, quantity = q\<rparr>] \<and>
      asks (add_order p q is_bid ob) = asks ob) \<and>
   (\<not> is_bid \<longrightarrow>
      asks (add_order p q is_bid ob) = asks ob @ [\<lparr>price = p, quantity = q\<rparr>] \<and>
      bids (add_order p q is_bid ob) = bids ob)"
  by (simp add: add_order_def)

theorem add_order_appends_witness:
  "bids (add_order (Finite 5) (Finite 2) True
           \<lparr>bids = [\<lparr>price = Finite 4, quantity = Finite 1\<rparr>], asks = []\<rparr>)
     = [\<lparr>price = Finite 4, quantity = Finite 1\<rparr>, \<lparr>price = Finite 5, quantity = Finite 2\<rparr>] \<and>
   asks (add_order (Finite 5) (Finite 2) True
           \<lparr>bids = [\<lparr>price = Finite 4, quantity = Finite 1\<rparr>], asks = []\<rparr>) = [] \<and>
   asks (add_order (Finite 7) (Finite 3) False
           \<lparr>bids = [\<lparr>price = Finite 4, quantity = Finite 1\<rparr>], asks = []\<rparr>)
     = [\<lparr>price = Finite 7, quantity = Finite 3\<rparr>] \<and>
   bids (add_order (Finite 7) (Finite 3) False
           \<lparr>bids = [\<lparr>price = Finite 4, quantity = Finite 1\<rparr>], asks = []\<rparr>)
     = [\<lparr>price = Finite 4, quantity = Finite 1\<rparr>]"
  using add_order_appends [of True "Finite 5" "Finite 2"
      "\<lparr>bids = [\<lparr>price = Finite 4, quantity = Finite 1\<rparr>], asks = []\<rparr>"]
    add_order_appends [of False "Finite 7" "Finite 3"
      "\<lparr>bids = [\<lparr>price = Finite 4, quantity = Finite 1\<rparr>], asks = []\<rparr>"]
  by simp

text \<open>
  C9. \<open>get_imbalance\<close> does not depend on prices: two sequences of \<open>add_order\<close> calls
  that agree, call by call, on quantity and side give the same imbalance.
\<close>

theorem get_imbalance_ignores_price:
  assumes "map (\<lambda>(p, q, is_bid). (q, is_bid)) calls = map (\<lambda>(p, q, is_bid). (q, is_bid)) calls'"
  shows "get_imbalance (add_orders calls OrderBook_new) =
         get_imbalance (add_orders calls' OrderBook_new)"
proof -
  have "map quantity (bids (add_orders calls OrderBook_new)) =
        map quantity (bids (add_orders calls' OrderBook_new))"
    unfolding quantity_bids_add_orders assms ..
  moreover have "map quantity (asks (add_orders calls OrderBook_new)) =
        map quantity (asks (add_orders calls' OrderBook_new))"
    unfolding quantity_asks_add_orders assms ..
  ultimately show ?thesis
    by (simp add: get_imbalance_volumes total_volume_def)
qed

theorem get_imbalance_ignores_price_witness:
  "map (\<lambda>(p, q, is_bid). (q, is_bid))
       [(Finite 5, Finite 1, True), (Finite 6, Finite 3, False)] =
   map (\<lambda>(p, q, is_bid). (q, is_bid))
       [(Finite 100, Finite 1, True), (Infinity True, Finite 3, False)] \<and>
   get_imbalance (add_orders [(Finite 5, Finite 1, True), (Finite 6, Finite 3, False)]
      OrderBook_new) =
   get_imbalance (add_orders [(Finite 100, Finite 1, True), (Infinity True, Finite 3, False)]
      OrderBook_new)"
proof -
  have h: "map (\<lambda>(p, q, is_bid). (q, is_bid))
       [(Finite 5, Finite 1, True), (Finite 6, Finite 3, False)] =
     map (\<lambda>(p, q, is_bid). (q, is_bid))
       [(Finite 100, Finite 1, True), (Infinity True, Finite 3, False)]"
    by simp
  from get_imbalance_ignores_price [OF h] h show ?thesis by blast
qed

text \<open>
  C10. With a negative threshold \<open>T\<close> an imbalance can be both greater than \<open>T\<close> and
  less than \<open>-T\<close>; \<open>check_signals\<close> then returns Buy (1), the branch tested first. An
  imbalance of 0.0 is such a value: it gives Buy (1), not Sell (-1) or None (0).
\<close>

theorem negative_threshold_buy:
  assumes "flt (entry_threshold ps) (Finite 0)"
  shows "(fgt (get_imbalance (leader_book ps)) (entry_threshold ps) \<and>
          flt (get_imbalance (leader_book ps)) (fneg (entry_threshold ps))
            \<longrightarrow> check_signals ps = 1) \<and>
         (feq (get_imbalance (leader_book ps)) (Finite 0) \<longrightarrow>
            fgt (get_imbalance (leader_book ps)) (entry_threshold ps) \<and>
            flt (get_imbalance (leader_book ps)) (fneg (entry_threshold ps)) \<and>
            check_signals ps = 1)"
  using assms zero_above_negative zero_below_neg_negative
  by (auto simp: check_signals_def Let_def)

theorem negative_threshold_buy_witness:
  "flt (entry_threshold (PairStrategy_new (Finite (- (1 / 2))))) (Finite 0) \<and>
   feq (get_imbalance (leader_book (PairStrategy_new (Finite (- (1 / 2)))))) (Finite 0) \<and>
   fgt (get_imbalance (leader_book (PairStrategy_new (Finite (- (1 / 2))))))
       (entry_threshold (PairStrategy_new (Finite (- (1 / 2))))) \<and>
   flt (get_imbalance (leader_book (PairStrategy_new (Finite (- (1 / 2))))))
       (fneg (entry_threshold (PairStrategy_new (Finite (- (1 / 2)))))) \<and>
   check_signals (PairStrategy_new (Finite (- (1 / 2)))) = 1 \<and>
   (1 :: int32) \<noteq> - 1 \<and> (1 :: int32) \<noteq> 0"
proof -
  let ?ps = "PairStrategy_new (Finite (- (1 / 2)))"
  have a: "flt (entry_threshold ?ps) (Finite 0)" by (simp add: leader_new)
  have b: "feq (get_imbalance (leader_book ?ps)) (Finite 0)" by (simp add: leader_new)
  from negative_threshold_buy [OF a] b
  have "fgt (get_imbalance (leader_book ?ps)) (entry_threshold ?ps) \<and>
        flt (get_imbalance (leader_book ?ps)) (fneg (entry_threshold ?ps)) \<and>
        check_signals ?ps = 1"
    by blast
  with a b show ?thesis by simp
qed

end
